(* ===== verification/Plug_Prelude.thy ===== *)
theory Plug_Prelude
  imports Main "HOL-Library.Word" "HOL-Library.AList" "HOL-Library.Multiset" "HOL-Library.Sublist"
begin

text \<open>
  Shared ground of the development: Rust's \<open>Result\<close>, the parts of the Rust standard library
  the server uses on strings (\<open>split\<close>, \<open>split_once\<close>, \<open>trim\<close>, \<open>starts_with\<close>, \<open>contains\<close>, integer
  \<open>Display\<close>, \<open>{:02X}\<close>), hash maps, and the generic lemmas about them.

  A Rust \<open>String\<close> is a \<open>string\<close>, read as its UTF-8 bytes, so that \<open>str::bytes\<close> is the list itself and
  \<open>len\<close> is \<open>length\<close>. A \<open>HashMap\<close> is an association list with distinct keys; its order stands for
  one iteration order, and every operation that iterates takes the order from the list.
\<close>

named_theorems rust_str \<open>equations of the string operations\<close>
named_theorems hm_simps \<open>lookup equations of the hash-map operations\<close>

section \<open>Definitions\<close>

subsection \<open>Results\<close>

datatype ('a, 'e) Result = Ok (ok_val: 'a) | Err (err_val: 'e)

text \<open>A Rust panic, with its message.\<close>

datatype panic = Panic string

primrec and_then :: "('a, 'e) Result \<Rightarrow> ('a \<Rightarrow> ('b, 'e) Result) \<Rightarrow> ('b, 'e) Result" where
  "and_then (Ok x) f = f x"
| "and_then (Err e) f = Err e"

primrec is_ok :: "('a, 'e) Result \<Rightarrow> bool" where
  "is_ok (Ok x) = True"
| "is_ok (Err e) = False"

primrec map_err :: "('e \<Rightarrow> 'f) \<Rightarrow> ('a, 'e) Result \<Rightarrow> ('a, 'f) Result" where
  "map_err f (Ok x) = Ok x"
| "map_err f (Err e) = Err (f e)"

primrec ok_or :: "'a option \<Rightarrow> 'e \<Rightarrow> ('a, 'e) Result" where
  "ok_or (Some x) e = Ok x"
| "ok_or None e = Err e"

primrec unwrap_or :: "'a option \<Rightarrow> 'a \<Rightarrow> 'a" where
  "unwrap_or (Some x) d = x"
| "unwrap_or None d = d"

subsection \<open>Strings\<close>

definition starts_with :: "string \<Rightarrow> string \<Rightarrow> bool" where
  "starts_with s p \<longleftrightarrow> take (length p) s = p"

fun contains_str :: "string \<Rightarrow> string \<Rightarrow> bool" where
  "contains_str [] p = (p = [])"
| "contains_str (c # s) p = (starts_with (c # s) p \<or> contains_str s p)"

text \<open>\<open>str::split\<close> on a character: one more segment than there are separators.\<close>

fun split_char :: "char \<Rightarrow> string \<Rightarrow> string list" where
  "split_char c [] = [[]]"
| "split_char c (x # xs) =
     (if x = c then [] # split_char c xs
      else (case split_char c xs of [] \<Rightarrow> [[x]] | seg # segs \<Rightarrow> (x # seg) # segs))"

fun split_once :: "char \<Rightarrow> string \<Rightarrow> (string \<times> string) option" where
  "split_once c [] = None"
| "split_once c (x # xs) =
     (if x = c then Some ([], xs)
      else (case split_once c xs of None \<Rightarrow> None | Some (a, b) \<Rightarrow> Some (x # a, b)))"

text \<open>\<open>str::trim\<close> removes characters with the Unicode property \<open>White_Space\<close>; these are their
  UTF-8 encodings.\<close>

definition whitespace :: "string list" where
  "whitespace =
     map (\<lambda>b. [char_of (b::nat)]) [9, 10, 11, 12, 13, 32] @
     map (map char_of)
       [[194, 133], [194, 160], [225, 154, 128],
        [226, 128, 128], [226, 128, 129], [226, 128, 130], [226, 128, 131], [226, 128, 132],
        [226, 128, 133], [226, 128, 134], [226, 128, 135], [226, 128, 136], [226, 128, 137],
        [226, 128, 138], [226, 128, 168], [226, 128, 169], [226, 128, 175], [226, 129, 159],
        [227, 128, 128 :: nat]]"

definition ws_prefix :: "string list \<Rightarrow> string \<Rightarrow> string option" where
  "ws_prefix ws s = List.find (\<lambda>w. w \<noteq> [] \<and> starts_with s w) ws"

lemma ws_prefix_SomeD: "ws_prefix ws s = Some w \<Longrightarrow> w \<noteq> [] \<and> starts_with s w"
  by (auto simp: ws_prefix_def find_Some_iff)

function strip_ws :: "string list \<Rightarrow> string \<Rightarrow> string" where
  "strip_ws ws s =
     (case ws_prefix ws s of None \<Rightarrow> s | Some w \<Rightarrow> strip_ws ws (drop (length w) s))"
  by pat_completeness auto
termination
proof (relation "measure (\<lambda>(ws, s). length s)", simp)
  fix ws s w
  assume "ws_prefix ws s = Some w"
  then have "w \<noteq> []" "take (length w) s = w"
    by (auto dest: ws_prefix_SomeD simp: starts_with_def)
  then have "s \<noteq> []" "length w > 0" by auto
  then show "((ws, drop (length w) s), (ws, s)) \<in> measure (\<lambda>(ws, s). length s)"
    by auto
qed

declare strip_ws.simps [simp del]

definition trim_start :: "string \<Rightarrow> string" where
  "trim_start s = strip_ws whitespace s"

definition trim_end :: "string \<Rightarrow> string" where
  "trim_end s = rev (strip_ws (map rev whitespace) (rev s))"

definition trim :: "string \<Rightarrow> string" where
  "trim s = trim_end (trim_start s)"

definition graphic :: "char \<Rightarrow> bool" where
  "graphic c \<longleftrightarrow> 33 \<le> (of_char c :: nat) \<and> (of_char c :: nat) \<le> 126"

subsection \<open>Display of integers\<close>

definition digit_char :: "nat \<Rightarrow> char" where
  "digit_char d = char_of (48 + d)"

fun show_nat :: "nat \<Rightarrow> string" where
  "show_nat n = (if n < 10 then [digit_char n] else show_nat (n div 10) @ [digit_char (n mod 10)])"

declare show_nat.simps [simp del]

definition show_int :: "int \<Rightarrow> string" where
  "show_int i = (if i < 0 then CHR ''-'' # show_nat (nat (- i)) else show_nat (nat i))"

definition hex_upper :: "nat \<Rightarrow> char" where
  "hex_upper d = (if d < 10 then char_of (48 + d) else char_of (55 + d))"

text \<open>\<open>format!("{b:02X}")\<close> of a byte.\<close>

definition hex02 :: "char \<Rightarrow> string" where
  "hex02 b = [hex_upper (of_char b div 16), hex_upper (of_char b mod 16)]"

subsection \<open>Hash maps\<close>

type_synonym HashMap = "(string \<times> string) list"

definition hm_get :: "('k \<times> 'v) list \<Rightarrow> 'k \<Rightarrow> 'v option" where
  "hm_get m k = map_of m k"

definition hm_insert :: "'k \<Rightarrow> 'v \<Rightarrow> ('k \<times> 'v) list \<Rightarrow> ('k \<times> 'v) list" where
  "hm_insert k v m = AList.update k v m"

definition hm_remove :: "'k \<Rightarrow> ('k \<times> 'v) list \<Rightarrow> ('k \<times> 'v) list" where
  "hm_remove k m = AList.delete k m"

text \<open>\<open>Extend::extend\<close>: the later pairs win.\<close>

definition hm_extend :: "('k \<times> 'v) list \<Rightarrow> ('k \<times> 'v) list \<Rightarrow> ('k \<times> 'v) list" where
  "hm_extend m ps = fold (\<lambda>(k, v). hm_insert k v) ps m"

definition hm_wf :: "('k \<times> 'v) list \<Rightarrow> bool" where
  "hm_wf m \<longleftrightarrow> distinct (map fst m)"

subsection \<open>Bounded retries\<close>

text \<open>The shape of the server's two retry loops: up to \<open>max\<close> retries after the first attempt, waiting
  between attempts, giving the first success or the last error.\<close>

fun retry :: "('s \<Rightarrow> ('a, 'e) Result \<times> 's) \<Rightarrow> ('s \<Rightarrow> 's) \<Rightarrow> nat \<Rightarrow> 's \<Rightarrow> ('a, 'e) Result \<times> 's" where
  "retry f wait 0 s = f s"
| "retry f wait (Suc k) s =
     (case f s of
        (Ok x, s) \<Rightarrow> (Ok x, s)
      | (Err e, s) \<Rightarrow> retry f wait k (wait s))"

text \<open>The state before attempt \<open>i\<close>, if the attempts before it failed.\<close>

definition retry_state :: "('s \<Rightarrow> ('a, 'e) Result \<times> 's) \<Rightarrow> ('s \<Rightarrow> 's) \<Rightarrow> nat \<Rightarrow> 's \<Rightarrow> 's" where
  "retry_state f wait i s = ((\<lambda>s. wait (snd (f s))) ^^ i) s"

section \<open>Lemmas\<close>

subsection \<open>Results and options\<close>

lemma and_then_Ok_iff [simp]: "and_then r f = Ok y \<longleftrightarrow> (\<exists>x. r = Ok x \<and> f x = Ok y)"
  by (cases r) auto

lemma ok_or_simps [simp]:
  "ok_or opt e = Ok x \<longleftrightarrow> opt = Some x"
  "ok_or opt e = Err e' \<longleftrightarrow> opt = None \<and> e' = e"
  by (cases opt; auto)+

lemma list_all_update: "list_all P xs \<Longrightarrow> P x \<Longrightarrow> list_all P (xs[i := x])"
  by (auto simp: list_all_iff dest: set_update_subset_insert [THEN subsetD])

lemma is_ok_iff: "is_ok r \<longleftrightarrow> (\<exists>x. r = Ok x)"
  by (cases r) auto

subsection \<open>Bounded retries\<close>

lemma retry_state_simps [simp]:
  "retry_state f wait 0 s = s"
  "retry_state f wait (Suc i) s = retry_state f wait i (wait (snd (f s)))"
  by (simp_all add: retry_state_def funpow_Suc_right del: funpow.simps(2))

lemma retry_invariant:
  assumes "\<And>s r s'. P s \<Longrightarrow> f s = (r, s') \<Longrightarrow> P s'" and "\<And>s. P s \<Longrightarrow> P (wait s)"
    and "P s" and "retry f wait k s = (r, s')"
  shows "P s'"
  using assms(3,4)
proof (induction k arbitrary: s)
  case 0
  with assms(1) show ?case by simp
next
  case (Suc k)
  obtain q u where f: "f s = (q, u)" by (rule prod.exhaust)
  with Suc.prems assms(1) have "P u" by blast
  with f Suc.IH [of "wait u"] Suc.prems assms(2) show ?case by (auto split: Result.splits)
qed

lemma retry_OkD: "retry f wait k s = (Ok x, s') \<Longrightarrow> \<exists>s0. f s0 = (Ok x, s')"
  by (induction k arbitrary: s) (auto split: Result.splits prod.splits)

locale bounded_retry =
  fixes attempt :: "'s \<Rightarrow> ('a, 'e) Result \<times> 's" and pause :: "'s \<Rightarrow> 's" and limit :: nat
    and retry_loop :: "'s \<Rightarrow> ('a, 'e) Result \<times> 's"
  assumes retry_loop_eq: "retry_loop s = retry attempt pause limit s"
begin

lemma retry_first_success:
  assumes "i \<le> k" and "\<And>j. j < i \<Longrightarrow> \<not> is_ok (fst (attempt (retry_state attempt pause j s)))"
    and "attempt (retry_state attempt pause i s) = (Ok x, t)"
  shows "retry attempt pause k s = (Ok x, t)"
  using assms
proof (induction k arbitrary: i s)
  case (Suc k)
  show ?case
  proof (cases i)
    case 0
    with Suc.prems show ?thesis by simp
  next
    case (Suc i')
    obtain e u where f: "attempt s = (Err e, u)"
      using Suc.prems(2) [of 0] Suc
      by (cases "attempt s"; cases "fst (attempt s)") (auto simp: is_ok_iff)
    have "retry attempt pause k (pause u) = (Ok x, t)"
    proof (rule Suc.IH)
      show "i' \<le> k" using Suc.prems(1) Suc by simp
      show "\<not> is_ok (fst (attempt (retry_state attempt pause j (pause u))))" if "j < i'" for j
        using Suc.prems(2) [of "Suc j"] that Suc f by simp
      show "attempt (retry_state attempt pause i' (pause u)) = (Ok x, t)"
        using Suc.prems(3) Suc f by simp
    qed
    with f show ?thesis by simp
  qed
qed simp

lemma retry_exhausted:
  assumes "\<And>j. j \<le> k \<Longrightarrow> \<not> is_ok (fst (attempt (retry_state attempt pause j s)))"
  shows "retry attempt pause k s = attempt (retry_state attempt pause k s)"
  using assms
proof (induction k arbitrary: s)
  case (Suc k)
  obtain e u where f: "attempt s = (Err e, u)"
    using Suc.prems [of 0] by (cases "attempt s"; cases "fst (attempt s)") (auto simp: is_ok_iff)
  have "retry attempt pause k (pause u) = attempt (retry_state attempt pause k (pause u))"
    by (rule Suc.IH) (use Suc.prems [of "Suc j" for j] f in simp)
  with f show ?case by simp
qed simp

lemma loop_first_success:
  "i \<le> limit \<Longrightarrow> (\<And>j. j < i \<Longrightarrow> \<not> is_ok (fst (attempt (retry_state attempt pause j s)))) \<Longrightarrow>
   attempt (retry_state attempt pause i s) = (Ok x, t) \<Longrightarrow> retry_loop s = (Ok x, t)"
  using retry_first_success by (simp add: retry_loop_eq)

lemma loop_exhausted:
  "(\<And>j. j \<le> limit \<Longrightarrow> \<not> is_ok (fst (attempt (retry_state attempt pause j s)))) \<Longrightarrow>
   retry_loop s = attempt (retry_state attempt pause limit s)"
  using retry_exhausted by (simp add: retry_loop_eq)

text \<open>The outcome of the loop is that of its first successful attempt, or of the last one.\<close>

lemma loop_cases:
  obtains (success) i x t where "i \<le> limit" "retry_loop s = (Ok x, t)"
      "attempt (retry_state attempt pause i s) = (Ok x, t)"
      "\<And>j. j < i \<Longrightarrow> \<not> is_ok (fst (attempt (retry_state attempt pause j s)))"
    | (exhausted) "retry_loop s = attempt (retry_state attempt pause limit s)"
      "\<And>j. j \<le> limit \<Longrightarrow> \<not> is_ok (fst (attempt (retry_state attempt pause j s)))"
proof (cases "\<exists>i \<le> limit. is_ok (fst (attempt (retry_state attempt pause i s)))")
  case True
  let ?P = "\<lambda>i. i \<le> limit \<and> is_ok (fst (attempt (retry_state attempt pause i s)))"
  define i where "i = (LEAST i. ?P i)"
  have i: "?P i" unfolding i_def by (rule LeastI_ex) (use True in blast)
  have least: "\<not> ?P j" if "j < i" for j using that not_less_Least unfolding i_def by blast
  obtain x t where "attempt (retry_state attempt pause i s) = (Ok x, t)"
    using i by (cases "attempt (retry_state attempt pause i s)") (auto simp: is_ok_iff)
  with i least show thesis by (intro success loop_first_success) auto
next
  case False
  then show thesis by (intro exhausted loop_exhausted) auto
qed

end

subsection \<open>Strings\<close>

lemma starts_with_prefix: "starts_with s p \<longleftrightarrow> prefix p s"
  by (auto simp: starts_with_def prefix_def) (metis append_take_drop_id)

lemma starts_with_append [simp]: "starts_with (p @ s) p"
  by (simp add: starts_with_def)

lemma starts_with_iff: "starts_with s p \<longleftrightarrow> (\<exists>r. s = p @ r)"
  by (simp add: starts_with_prefix prefix_def)

lemma contains_str_iff: "contains_str s p \<longleftrightarrow> (\<exists>a b. s = a @ p @ b)"
proof (induction s)
  case (Cons c s)
  have "(\<exists>a b. c # s = a @ p @ b) \<longleftrightarrow> (\<exists>b. c # s = p @ b) \<or> (\<exists>a b. s = a @ p @ b)"
    by (metis append_Cons append_Nil list.sel(3) tl_append2)
  then show ?case using Cons by (simp add: starts_with_iff)
qed simp

lemma split_char_nonempty [simp]: "split_char c s \<noteq> []"
  by (induction c s rule: split_char.induct) (auto split: list.splits)

lemma split_char_no_sep: "seg \<in> set (split_char c s) \<Longrightarrow> c \<notin> set seg"
proof (induction c s arbitrary: seg rule: split_char.induct)
  case (2 c x xs)
  then show ?case
    by (cases "split_char c xs") (auto split: if_splits)
qed simp

lemma split_char_single: "c \<notin> set s \<Longrightarrow> split_char c s = [s]"
  by (induction s) auto

lemma split_char_append:
  "c \<notin> set a \<Longrightarrow> split_char c (a @ c # b) = a # split_char c b"
  by (induction a) auto

lemma split_once_SomeD:
  "split_once c s = Some (a, b) \<Longrightarrow> s = a @ c # b \<and> c \<notin> set a"
  by (induction c s arbitrary: a b rule: split_once.induct) (auto split: if_splits option.splits)

lemma split_once_append: "c \<notin> set a \<Longrightarrow> split_once c (a @ c # b) = Some (a, b)"
  by (induction a) auto

lemma split_once_Some_iff:
  "split_once c s = Some (a, b) \<longleftrightarrow> s = a @ c # b \<and> c \<notin> set a"
  using split_once_SomeD split_once_append by metis

lemma split_once_None_iff: "split_once c s = None \<longleftrightarrow> c \<notin> set s"
  by (induction c s rule: split_once.induct) (auto split: option.splits)

subsection \<open>Trimming\<close>

lemma whitespace_not_graphic:
  "list_all (\<lambda>w. w \<noteq> [] \<and> \<not> graphic (hd w) \<and> \<not> graphic (last w)) whitespace"
  by (simp add: whitespace_def graphic_def)

lemma strip_ws_id:
  assumes "list_all (\<lambda>w. w \<noteq> [] \<and> \<not> graphic (hd w)) ws" and "s = [] \<or> graphic (hd s)"
  shows "strip_ws ws s = s"
proof -
  have "ws_prefix ws s = None"
    using assms
    by (auto simp: ws_prefix_def find_None_iff list_all_iff starts_with_iff)
  then show ?thesis by (subst strip_ws.simps) simp
qed

text \<open>A string that starts and ends with a visible ASCII character is not changed by \<open>trim\<close>.\<close>

lemma trim_graphic_id:
  assumes "s = [] \<or> graphic (hd s) \<and> graphic (last s)"
  shows "trim s = s"
proof -
  have "trim_start s = s"
    unfolding trim_start_def
    by (rule strip_ws_id) (use assms whitespace_not_graphic in \<open>auto simp: list_all_iff\<close>)
  moreover have "trim_end s = s"
  proof -
    have "strip_ws (map rev whitespace) (rev s) = rev s"
      by (rule strip_ws_id)
        (use assms whitespace_not_graphic in \<open>auto simp: list_all_iff hd_rev\<close>)
    then show ?thesis by (simp add: trim_end_def)
  qed
  ultimately show ?thesis by (simp add: trim_def)
qed

subsection \<open>Display of integers\<close>

lemma of_char_digit: "d < 10 \<Longrightarrow> of_char (digit_char d) = 48 + d"
  by (simp add: digit_char_def)

lemma digit_char_inj: "d < 10 \<Longrightarrow> e < 10 \<Longrightarrow> digit_char d = digit_char e \<Longrightarrow> d = e"
  by (metis of_char_digit add_left_cancel)

lemma show_nat_inj: "show_nat m = show_nat n \<Longrightarrow> m = n"
proof (induction m arbitrary: n rule: show_nat.induct)
  case (1 m)
  have len: "show_nat k \<noteq> []" "[] \<noteq> show_nat k" for k
    by (subst show_nat.simps, simp)+
  show ?case
  proof (cases "m < 10")
    case True
    with "1.prems" len have "n < 10"
      by (subst (asm) (1 2) show_nat.simps) (auto split: if_splits)
    with True "1.prems" show ?thesis
      by (auto simp: show_nat.simps [of m] show_nat.simps [of n] intro: digit_char_inj)
  next
    case False
    with "1.prems" len have n: "\<not> n < 10"
      by (subst (asm) (1 2) show_nat.simps) (auto split: if_splits)
    with False "1.prems" have "show_nat (m div 10) = show_nat (n div 10)"
      "digit_char (m mod 10) = digit_char (n mod 10)"
      by (simp_all add: show_nat.simps [of m] show_nat.simps [of n])
    with False "1.IH" have "m div 10 = n div 10" "m mod 10 = n mod 10"
      by (auto intro: digit_char_inj)
    then show ?thesis by (metis div_mult_mod_eq)
  qed
qed

subsection \<open>Hash maps\<close>

lemma hm_get_insert [hm_simps]:
  "hm_get (hm_insert k v m) k' = (if k' = k then Some v else hm_get m k')"
  by (simp add: hm_get_def hm_insert_def update_conv')

lemma hm_get_remove [hm_simps]:
  "hm_get (hm_remove k m) k' = (if k' = k then None else hm_get m k')"
  by (simp add: hm_get_def hm_remove_def delete_conv')

lemma hm_get_Nil [hm_simps]: "hm_get [] k = None"
  by (simp add: hm_get_def)

lemma hm_get_Cons: "hm_get ((k, v) # m) k' = (if k' = k then Some v else hm_get m k')"
  by (simp add: hm_get_def)

lemma hm_wf_insert [simp]: "hm_wf m \<Longrightarrow> hm_wf (hm_insert k v m)"
  by (simp add: hm_wf_def hm_insert_def distinct_update)

lemma hm_wf_extend [simp]: "hm_wf m \<Longrightarrow> hm_wf (hm_extend m ps)"
  unfolding hm_extend_def by (induction ps arbitrary: m) auto

lemma hm_get_fold_insert_notin:
  "k \<notin> fst ` set ps \<Longrightarrow> hm_get (fold (\<lambda>(k, v). hm_insert k v) ps m) k = hm_get m k"
  by (induction ps arbitrary: m) (auto simp: hm_simps)

lemma hm_get_extend [hm_simps]:
  assumes "hm_wf ps"
  shows "hm_get (hm_extend m ps) k = (case hm_get ps k of Some v \<Rightarrow> Some v | None \<Rightarrow> hm_get m k)"
  using assms unfolding hm_extend_def
proof (induction ps arbitrary: m)
  case (Cons p ps)
  obtain k' v where p: "p = (k', v)" by (cases p)
  have nin: "k' \<notin> fst ` set ps" and wf: "hm_wf ps"
    using Cons.prems by (auto simp: hm_wf_def p)
  then have "hm_get ps k' = None"
    by (simp add: hm_get_def map_of_eq_None_iff)
  then show ?case
    using Cons.IH [OF wf, of "hm_insert k' v m"]
    by (auto simp: p hm_simps hm_get_Cons split: option.splits)
qed (simp add: hm_simps)

lemma hm_get_mem: "hm_wf m \<Longrightarrow> hm_get m k = Some v \<longleftrightarrow> (k, v) \<in> set m"
  by (simp add: hm_get_def hm_wf_def)

end
