(* ===== verification/Proxy_Config.thy ===== *)
theory Proxy_Config
  imports Plug_Prelude
begin

text \<open>
  The server configuration (\<open>server/src/config.rs\<close>): the structs read from YAML and environment,
  the defaults, and the derived values. Reading the files (\<open>figment\<close>), finding the local IP
  address (\<open>local_ip_address\<close>) and expanding a template (\<open>minijinja\<close>) are library code and
  appear as arguments. A panic is an error value.
\<close>

section \<open>Definitions\<close>

type_synonym u16 = "16 word"
type_synonym u32 = "32 word"
type_synonym u64 = "64 word"

definition DEFAULT_PORT :: u16 where
  "DEFAULT_PORT = 8100"

record SparkVersion =
  sv_name :: string
  sv_home :: string
  sv_master :: "string option"
  sv_deploy_mode :: "string option"
  sv_proxy_user :: "bool option"
  sv_env :: "HashMap option"
  sv_default_configs :: "HashMap option"
  sv_merge_configs :: "HashMap option"
  sv_override_configs :: "HashMap option"
  sv_python_executable :: "string option"

definition SparkVersion_default :: SparkVersion where
  "SparkVersion_default = \<lparr>sv_name = [], sv_home = [], sv_master = None, sv_deploy_mode = None,
     sv_proxy_user = None, sv_env = None, sv_default_configs = None, sv_merge_configs = None,
     sv_override_configs = None, sv_python_executable = None\<rparr>"

record KerberosConfig =
  keytab :: string
  principal :: string
  renewal_interval :: "u64 option"

record TlsConfig =
  tls_key :: string
  tls_cert :: string

record AuthConfig =
  auth_name :: string
  auth_options :: "HashMap option"

record ProxyConfig =
  bind_host :: "string option"
  bind_port :: "u16 option"
  callback_address :: "string option"
  ui_url_template :: "string option"
  log_url_template :: "string option"
  plugin_path :: "string option"
  launch_timeout :: "u32 option"
  session_timeout :: "u32 option"
  store :: "string option"
  kerberos_config :: "KerberosConfig option"
  tls :: "TlsConfig option"
  spark_versions :: "SparkVersion list option"
  auth_methods :: "AuthConfig list option"

definition ProxyConfig_default :: ProxyConfig where
  "ProxyConfig_default = \<lparr>bind_host = None, bind_port = None, callback_address = None,
     ui_url_template = None, log_url_template = None, plugin_path = None, launch_timeout = None,
     session_timeout = None, store = None, kerberos_config = None, tls = None,
     spark_versions = None, auth_methods = None\<rparr>"

text \<open>The providers merged into the \<open>Figment\<close>, earliest first; \<open>extract\<close> is figment's reader.\<close>

datatype provider = YamlFile string | EnvPrefixed string

definition config_create ::
  "(provider list \<Rightarrow> (ProxyConfig, string) Result) \<Rightarrow> string option \<Rightarrow> (ProxyConfig, panic) Result"
where
  "config_create extract path =
     (let figment = (case path of None \<Rightarrow> [] | Some p \<Rightarrow> [YamlFile p]);
          figment = figment @ [EnvPrefixed ''SPARK_PLUG_'']
      in map_err Panic (extract figment))"

definition get_bind_port :: "ProxyConfig \<Rightarrow> u16" where
  "get_bind_port c = unwrap_or (bind_port c) DEFAULT_PORT"

definition get_callback_addr ::
  "(string, string) Result \<Rightarrow> ProxyConfig \<Rightarrow> (string, panic) Result" where
  "get_callback_addr local_ip c =
     (case callback_address c of
        Some a \<Rightarrow> Ok a
      | None \<Rightarrow>
          let callback_scheme = (if tls c \<noteq> None then ''https'' else ''http'')
          in (case local_ip of
                Err e \<Rightarrow> Err (Panic e)
              | Ok ip \<Rightarrow>
                  Ok (callback_scheme @ ''://'' @ ip @ '':'' @ show_nat (unat (get_bind_port c)))))"

text \<open>\<open>render!\<close> panics when the template is invalid: \<open>None\<close> of the argument \<open>render\<close>.\<close>

definition render_url ::
  "(string \<Rightarrow> string \<Rightarrow> string option) \<Rightarrow> string option \<Rightarrow> string option
   \<Rightarrow> (string option, panic) Result" where
  "render_url render template application_id =
     (case template of
        None \<Rightarrow> Ok None
      | Some tpl \<Rightarrow>
          (case application_id of
             None \<Rightarrow> Ok None
           | Some a \<Rightarrow>
               if a = [] then Ok None
               else (case render tpl a of
                       None \<Rightarrow> Err (Panic ''failed to render expression'')
                     | Some rendered \<Rightarrow> Ok (Some rendered))))"

definition render_ui_url ::
  "(string \<Rightarrow> string \<Rightarrow> string option) \<Rightarrow> ProxyConfig \<Rightarrow> string option
   \<Rightarrow> (string option, panic) Result" where
  "render_ui_url render c application_id = render_url render (ui_url_template c) application_id"

definition render_log_url ::
  "(string \<Rightarrow> string \<Rightarrow> string option) \<Rightarrow> ProxyConfig \<Rightarrow> string option
   \<Rightarrow> (string option, panic) Result" where
  "render_log_url render c application_id = render_url render (log_url_template c) application_id"

section \<open>Lemmas\<close>

lemma render_url_None [simp]: "render_url render t None = Ok None"
  by (simp add: render_url_def split: option.splits)

lemma render_url_Some_iff:
  "render_url render t aid = Ok (Some u) \<longleftrightarrow>
     (\<exists>tpl a. t = Some tpl \<and> aid = Some a \<and> a \<noteq> [] \<and> render tpl a = Some u)"
  by (auto simp: render_url_def split: option.splits if_splits)

lemma render_None [simp]:
  "render_ui_url render c None = Ok None" "render_log_url render c None = Ok None"
  by (simp_all add: render_ui_url_def render_log_url_def)

end
