(* ===== verification/Launcher.thy ===== *)
theory Launcher
  imports Proxy_Config
begin

text \<open>
  Launching Spark sessions (\<open>server/src/launcher.rs\<close>): reading the launcher from the
  configuration, merging Spark configurations, checking file configurations, building the
  \<open>spark-submit\<close> command line and the Python environment, starting the process and tracking
  it. The operating system (executables, environment variables, files, processes) is a record of
  functions over an abstract state. The iteration order of a \<open>HashMap\<close> is the argument \<open>iter\<close>.
\<close>

section \<open>Definitions\<close>

subsection \<open>Constants and errors\<close>

definition SPARK_HOME :: string where "SPARK_HOME = ''SPARK_HOME''"
definition APP_NAME_CONFIG :: string where "APP_NAME_CONFIG = ''spark.app.name''"
definition TOKEN_CONFIG :: string where "TOKEN_CONFIG = ''spark.connect.authenticate.token''"
definition CALLBACK_CONFIG :: string where "CALLBACK_CONFIG = ''spark.plug.callback''"
definition TIMEOUT_CONFIG :: string where "TIMEOUT_CONFIG = ''spark.plug.idle.timeout''"
definition LISTENER_CONFIG :: string where "LISTENER_CONFIG = ''spark.extraListeners''"
definition INTERCEPTOR_CONFIG :: string where
  "INTERCEPTOR_CONFIG = ''spark.connect.grpc.interceptor.classes''"
definition GRPC_PORT_CONFIG :: string where "GRPC_PORT_CONFIG = ''spark.connect.grpc.binding.port''"
definition LISTENER_CLASS :: string where
  "LISTENER_CLASS = ''org.apache.spark.sql.sparkplug.SparkPlugListener''"
definition INTERCEPTOR_CLASS :: string where
  "INTERCEPTOR_CLASS = ''org.apache.spark.sql.sparkplug.SparkPlugInterceptor''"
definition SERVER_CLASS :: string where
  "SERVER_CLASS = ''org.apache.spark.sql.sparkplug.SparkPlugServer''"

lemmas config_keys = APP_NAME_CONFIG_def TOKEN_CONFIG_def CALLBACK_CONFIG_def TIMEOUT_CONFIG_def
  LISTENER_CONFIG_def INTERCEPTOR_CONFIG_def GRPC_PORT_CONFIG_def

datatype ErrorKind = NotFound | InvalidInput | PermissionDenied | OtherKind

datatype io_error = IoError ErrorKind string

datatype launch_error = LaunchIo io_error | LaunchPanic string

subsection \<open>The operating system\<close>

text \<open>\<open>Path::parent\<close> and \<open>Path::join\<close> of the standard library, on Unix paths.\<close>

definition path_parent :: "string \<Rightarrow> string option" where
  "path_parent p =
     (let r = dropWhile (\<lambda>c. c = CHR ''/'') (rev p)
      in if r = [] then None
         else (case dropWhile (\<lambda>c. c \<noteq> CHR ''/'') r of
                 [] \<Rightarrow> Some []
               | r' \<Rightarrow> (case dropWhile (\<lambda>c. c = CHR ''/'') r' of
                          [] \<Rightarrow> Some ''/''
                        | r'' \<Rightarrow> Some (rev r''))))"

definition path_join :: "string \<Rightarrow> string \<Rightarrow> string" where
  "path_join a b =
     (if starts_with b ''/'' then b
      else if a = [] then b
      else if last a = CHR ''/'' then a @ b
      else a @ ''/'' @ b)"

record host =
  which_exe :: "string \<Rightarrow> string option"
  env_var :: "string \<Rightarrow> string option"
  path_exists :: "string \<Rightarrow> bool"
  run_find_spark_home :: "string \<Rightarrow> (string, string) Result"
  host_local_ip :: "(string, string) Result"
  embedded_plugin :: "(string, string) Result option"
  manifest_dir :: string
  is_windows :: bool
  is_macos :: bool

record 'n proc_ops =
  temp_dir :: "string \<Rightarrow> 'n \<Rightarrow> (string, io_error) Result \<times> 'n"
  run_status :: "string \<Rightarrow> string list \<Rightarrow> 'n \<Rightarrow> (bool, io_error) Result \<times> 'n"
  spawn :: "string \<Rightarrow> string list \<Rightarrow> HashMap \<Rightarrow> 'n \<Rightarrow> (nat, io_error) Result \<times> 'n"

subsection \<open>The launcher\<close>

record SparkLauncher =
  versions :: "SparkVersion list"
  callback_addr :: string
  sl_launch_timeout :: u32
  sl_session_timeout :: u32
  sl_plugin_path :: string
  plugin_temp_path :: "string option"

definition find_default_spark_home :: "host \<Rightarrow> (string, panic) Result" where
  "find_default_spark_home os =
     (case which_exe os ''find_spark_home.py'' of
        Some find_spark_home \<Rightarrow>
          (case run_find_spark_home os find_spark_home of
             Err e \<Rightarrow> Err (Panic e)
           | Ok path \<Rightarrow> Ok (trim_end path))
      | None \<Rightarrow>
          (case which_exe os ''spark-submit'' of
             Some submit_path \<Rightarrow>
               (case path_parent submit_path of
                  None \<Rightarrow> Err (Panic ''Failed to get parent of spark-submit command'')
                | Some bin \<Rightarrow>
                    (case path_parent bin of
                       None \<Rightarrow> Err (Panic ''Failed to get parent of spark-submit command'')
                     | Some home \<Rightarrow> Ok home))
           | None \<Rightarrow> Err (Panic ''Unable to find a default Spark installation'')))"

definition default_versions :: "host \<Rightarrow> (SparkVersion list, panic) Result" where
  "default_versions os =
     (let python_executable = which_exe os ''python3''
      in case env_var os SPARK_HOME of
           Some home \<Rightarrow>
             Ok [SparkVersion_default\<lparr>sv_name := ''default'', sv_home := home,
                   sv_python_executable := python_executable\<rparr>]
         | None \<Rightarrow>
             and_then (find_default_spark_home os) (\<lambda>home.
               Ok [SparkVersion_default\<lparr>sv_name := ''default'', sv_home := home,
                     sv_python_executable := python_executable\<rparr>]))"

definition launcher_from_config :: "host \<Rightarrow> ProxyConfig \<Rightarrow> (SparkLauncher, panic) Result" where
  "launcher_from_config os config =
     and_then (case spark_versions config of Some vs \<Rightarrow> Ok vs | None \<Rightarrow> default_versions os) (\<lambda>vs.
     and_then (get_callback_addr (host_local_ip os) config) (\<lambda>callback.
       if vs = [] then Err (Panic ''No Spark versions provided'')
       else (case List.find (\<lambda>v. \<not> path_exists os (sv_home v)) vs of
               Some v \<Rightarrow> Err (Panic (''Home directory not found for version '' @ sv_name v @ '': ''
                                @ sv_home v))
             | None \<Rightarrow>
                 and_then (case embedded_plugin os of
                             Some (Err e) \<Rightarrow> Err (Panic e)
                           | Some (Ok path) \<Rightarrow> Ok (path, Some path)
                           | None \<Rightarrow> Ok (unwrap_or (plugin_path config)
                               (manifest_dir os @
                                ''/../plugin/target/scala-2.13/spark-plug_2.13-0.1.0.jar''), None))
                   (\<lambda>(path, temp).
                      Ok \<lparr>versions = vs, callback_addr = callback,
                          sl_launch_timeout = unwrap_or (launch_timeout config) 300,
                          sl_session_timeout = unwrap_or (session_timeout config) 3600,
                          sl_plugin_path = path, plugin_temp_path = temp\<rparr>))))"

definition get_versions :: "SparkLauncher \<Rightarrow> string list" where
  "get_versions l = map sv_name (versions l)"

subsection \<open>Spark configurations\<close>

definition merge_config :: "string \<times> string \<Rightarrow> HashMap \<Rightarrow> HashMap" where
  "merge_config kv configs =
     (case kv of (key, value) \<Rightarrow>
        (case hm_get configs key of
           Some existing \<Rightarrow> hm_insert key (existing @ '','' @ value) configs
         | None \<Rightarrow> hm_insert key value configs))"

definition build_conf :: "SparkVersion \<Rightarrow> HashMap \<Rightarrow> HashMap" where
  "build_conf version user_config =
     (let configs = unwrap_or (sv_default_configs version) [];
          configs = hm_extend configs user_config;
          configs = (case sv_merge_configs version of
                       Some merge_configs \<Rightarrow> fold merge_config merge_configs configs
                     | None \<Rightarrow> configs);
          configs = (case sv_override_configs version of
                       Some override_configs \<Rightarrow> hm_extend configs override_configs
                     | None \<Rightarrow> configs)
      in configs)"

fun validate_segments :: "string \<Rightarrow> string list \<Rightarrow> (unit, io_error) Result" where
  "validate_segments key [] = Ok ()"
| "validate_segments key (file_path # rest) =
     (let trimmed = trim file_path
      in if trimmed = [] then validate_segments key rest
         else if \<not> contains_str trimmed ''://'' then
           Err (IoError InvalidInput
             (''Config '' @ key @ '' contains file path without protocol: '' @ trimmed))
         else if starts_with trimmed ''file://'' then
           Err (IoError PermissionDenied
             (''Config '' @ key @ '' cannot use file:// protocol: '' @ trimmed))
         else validate_segments key rest)"

fun validate_keys :: "string list \<Rightarrow> HashMap \<Rightarrow> (unit, io_error) Result" where
  "validate_keys [] configs = Ok ()"
| "validate_keys (key # keys) configs =
     (case hm_get configs key of
        None \<Rightarrow> validate_keys keys configs
      | Some value \<Rightarrow>
          and_then (validate_segments key (split_char (CHR '','') value))
            (\<lambda>_. validate_keys keys configs))"

definition file_config_keys :: "string list" where
  "file_config_keys = [''spark.files'', ''spark.archives'', ''spark.submit.pyFiles'']"

definition validate_file_configs :: "HashMap \<Rightarrow> (unit, io_error) Result" where
  "validate_file_configs configs = validate_keys file_config_keys configs"

subsection \<open>The command line\<close>

definition add_app_name :: "string option \<Rightarrow> int \<Rightarrow> HashMap \<Rightarrow> HashMap" where
  "add_app_name app_name session_id configs =
     (case app_name of
        Some n \<Rightarrow> hm_insert APP_NAME_CONFIG n configs
      | None \<Rightarrow>
          if hm_get configs APP_NAME_CONFIG = None
          then hm_insert APP_NAME_CONFIG (''spark-plug-session-'' @ show_int session_id) configs
          else configs)"

definition add_internal_configs :: "SparkLauncher \<Rightarrow> string \<Rightarrow> HashMap \<Rightarrow> HashMap" where
  "add_internal_configs l token configs =
     hm_insert GRPC_PORT_CONFIG ''0''
       (hm_insert INTERCEPTOR_CONFIG INTERCEPTOR_CLASS
         (hm_insert LISTENER_CONFIG LISTENER_CLASS
           (hm_insert TIMEOUT_CONFIG (show_nat (unat (sl_session_timeout l)))
             (hm_insert CALLBACK_CONFIG (callback_addr l)
               (hm_insert TOKEN_CONFIG token configs)))))"

definition add_venv :: "string option \<Rightarrow> HashMap \<Rightarrow> HashMap" where
  "add_venv venv_tarball configs =
     (case venv_tarball of
        None \<Rightarrow> configs
      | Some tarball \<Rightarrow>
          let venv_archive = tarball @ ''#environment'';
              configs = (case hm_get configs ''spark.archives'' of
                           Some archives \<Rightarrow>
                             if archives \<noteq> []
                             then hm_insert ''spark.archives'' (archives @ '','' @ venv_archive) configs
                             else hm_insert ''spark.archives'' venv_archive configs
                         | None \<Rightarrow> hm_insert ''spark.archives'' venv_archive configs)
          in hm_insert ''spark.sql.execution.pyspark.python'' ''../environment/bin/python'' configs)"

definition submit_configs ::
  "SparkLauncher \<Rightarrow> SparkVersion \<Rightarrow> int \<Rightarrow> string option \<Rightarrow> string \<Rightarrow> HashMap \<Rightarrow> string option \<Rightarrow> HashMap"
where
  "submit_configs l version session_id app_name token user_config venv_tarball =
     add_venv venv_tarball
       (add_internal_configs l token
         (add_app_name app_name session_id (build_conf version user_config)))"

definition conf_flags :: "HashMap \<Rightarrow> string list" where
  "conf_flags configs = concat (map (\<lambda>(key, value). [''--conf'', key @ ''='' @ value]) configs)"

definition build_submit_command ::
  "(HashMap \<Rightarrow> HashMap) \<Rightarrow> SparkLauncher \<Rightarrow> SparkVersion \<Rightarrow> int \<Rightarrow> string option \<Rightarrow> string \<Rightarrow> string
   \<Rightarrow> HashMap \<Rightarrow> string option \<Rightarrow> (string \<times> string list, io_error) Result" where
  "build_submit_command iter l version session_id app_name user token user_config venv_tarball =
     and_then (validate_file_configs user_config) (\<lambda>_.
       let configs = submit_configs l version session_id app_name token user_config venv_tarball;
           submit_path = path_join (path_join (sv_home version) ''bin'') ''spark-submit'';
           args = (case sv_master version of None \<Rightarrow> [] | Some m \<Rightarrow> [''--master'', m])
             @ (case sv_deploy_mode version of None \<Rightarrow> [] | Some d \<Rightarrow> [''--deploy-mode'', d])
             @ conf_flags (iter configs)
             @ [''--class'', SERVER_CLASS]
             @ (if unwrap_or (sv_proxy_user version) False then [''--proxy-user'', user] else [])
             @ [sl_plugin_path l]
       in Ok (submit_path, args))"

subsection \<open>The Python environment\<close>

definition build_python_venv ::
  "host \<Rightarrow> 'n proc_ops \<Rightarrow> string option \<Rightarrow> string list \<Rightarrow> 'n \<Rightarrow> (string, io_error) Result \<times> 'n" where
  "build_python_venv os ops python_executable packages n =
     (case python_executable of
        None \<Rightarrow> (Err (IoError NotFound
                  ''No python executable specified for creating virtual environment''), n)
      | Some python \<Rightarrow>
     (case temp_dir ops ''spark-plug-venv'' n of
        (Err e, n) \<Rightarrow> (Err e, n)
      | (Ok venv_path, n) \<Rightarrow>
     (case run_status ops ''uv'' [''venv'', ''--python'', python, venv_path] n of
        (Err e, n) \<Rightarrow> (Err e, n)
      | (Ok False, n) \<Rightarrow> (Err (IoError OtherKind
            (''Failed to create virtual environment with uv using '' @ python)), n)
      | (Ok True, n) \<Rightarrow>
     (let venv_python = (if is_windows os then venv_path @ ''/Scripts/python.exe''
                         else venv_path @ ''/bin/python'')
      in case run_status ops ''uv''
             ([''pip'', ''install'', ''--python'', venv_python] @ [''venv-pack''] @ packages) n of
        (Err e, n) \<Rightarrow> (Err e, n)
      | (Ok False, n) \<Rightarrow> (Err (IoError OtherKind
            ''Failed to install packages in virtual environment''), n)
      | (Ok True, n) \<Rightarrow>
     (let venv_pack = (if is_windows os then venv_path @ ''/Scripts/venv-pack''
                       else venv_path @ ''/bin/venv-pack'')
      in case run_status ops venv_pack
             [''-p'', venv_path, ''-o'', venv_path @ ''.tgz'', ''--exclude'', ''*/venv-pack/*''] n of
        (Err e, n) \<Rightarrow> (Err e, n)
      | (Ok False, n) \<Rightarrow> (Err (IoError OtherKind
            ''Failed to install packages in virtual environment''), n)
      | (Ok True, n) \<Rightarrow> (Ok (venv_path @ ''.tgz''), n))))))"

subsection \<open>Launching\<close>

text \<open>The handle of the task of \<open>track_launch\<close>: the child it waits for and the launch timeout.\<close>

type_synonym JoinHandle = "nat \<times> u32"

definition track_launch :: "SparkLauncher \<Rightarrow> nat \<Rightarrow> JoinHandle" where
  "track_launch l child = (child, sl_launch_timeout l)"

text \<open>When that task ends, in milliseconds from its start: \<open>exit\<close> is when the child ends and
  whether it succeeded. The \<open>select!\<close> branch on \<open>false\<close> is disabled by a successful exit, and
  then only the timer is left.\<close>

definition track_launch_end :: "JoinHandle \<Rightarrow> (nat \<times> bool) option \<Rightarrow> nat" where
  "track_launch_end h exit =
     (let timer = unat (snd h) * 1000
      in case exit of
           Some (t, False) \<Rightarrow> min t timer
         | Some (t, True) \<Rightarrow> timer
         | None \<Rightarrow> timer)"

definition select_version ::
  "SparkLauncher \<Rightarrow> string option \<Rightarrow> (SparkVersion, launch_error) Result" where
  "select_version l version_name =
     (case version_name of
        Some name \<Rightarrow>
          (case List.find (\<lambda>v. sv_name v = name) (versions l) of
             Some v \<Rightarrow> Ok v
           | None \<Rightarrow> Err (LaunchIo (IoError NotFound (''Version named '' @ name @ '' not found''))))
      | None \<Rightarrow>
          (case versions l of
             [] \<Rightarrow> Err (LaunchPanic ''index out of bounds'')
           | v # _ \<Rightarrow> Ok v))"

definition launch_env :: "host \<Rightarrow> SparkVersion \<Rightarrow> HashMap" where
  "launch_env os version =
     (let env = hm_insert ''SPARK_HOME'' (sv_home version) (unwrap_or (sv_env version) [])
      in if is_macos os then hm_insert ''SPARK_LOCAL_IP'' ''127.0.0.1'' env else env)"

definition launch_venv ::
  "host \<Rightarrow> 'n proc_ops \<Rightarrow> SparkVersion \<Rightarrow> string list option \<Rightarrow> 'n
   \<Rightarrow> (string option, io_error) Result \<times> 'n" where
  "launch_venv os ops version python_packages n =
     (case python_packages of
        Some packages \<Rightarrow>
          if packages \<noteq> [] then
            (case build_python_venv os ops (sv_python_executable version) packages n of
               (Ok tarball, n) \<Rightarrow> (Ok (Some tarball), n)
             | (Err e, n) \<Rightarrow> (Err e, n))
          else (Ok None, n)
      | None \<Rightarrow> (Ok None, n))"

definition launch ::
  "host \<Rightarrow> 'n proc_ops \<Rightarrow> (HashMap \<Rightarrow> HashMap) \<Rightarrow> SparkLauncher \<Rightarrow> string option \<Rightarrow> int
   \<Rightarrow> string option \<Rightarrow> string \<Rightarrow> string \<Rightarrow> HashMap \<Rightarrow> string list option \<Rightarrow> 'n
   \<Rightarrow> (JoinHandle, launch_error) Result \<times> 'n" where
  "launch os ops iter l version_name session_id app_name user token user_config python_packages n =
     (case select_version l version_name of
        Err e \<Rightarrow> (Err e, n)
      | Ok version \<Rightarrow>
     (case launch_venv os ops version python_packages n of
        (Err e, n) \<Rightarrow> (Err (LaunchIo e), n)
      | (Ok venv_tarball, n) \<Rightarrow>
     (case build_submit_command iter l version session_id app_name user token user_config
             venv_tarball of
        Err e \<Rightarrow> (Err (LaunchIo e), n)
      | Ok (submit_path, args) \<Rightarrow>
     (case spawn ops submit_path args (launch_env os version) n of
        (Err e, n) \<Rightarrow> (Err (LaunchIo e), n)
      | (Ok child, n) \<Rightarrow> (Ok (track_launch l child), n)))))"

subsection \<open>Reference readings\<close>

text \<open>The documented precedence of the configuration sources: forced values first, then the value
  of the user or else the default, with the merge value appended after a comma.\<close>

definition conf_spec :: "SparkVersion \<Rightarrow> HashMap \<Rightarrow> string \<Rightarrow> string option" where
  "conf_spec version user_config k =
     (case hm_get (unwrap_or (sv_override_configs version) []) k of
        Some v \<Rightarrow> Some v
      | None \<Rightarrow>
          let base = (case hm_get user_config k of
                        Some u \<Rightarrow> Some u
                      | None \<Rightarrow> hm_get (unwrap_or (sv_default_configs version) []) k)
          in (case hm_get (unwrap_or (sv_merge_configs version) []) k of
                None \<Rightarrow> base
              | Some m \<Rightarrow> (case base of None \<Rightarrow> Some m | Some b \<Rightarrow> Some (b @ '','' @ m))))"

text \<open>What \<open>spark-submit\<close> reads from its command line: flags with one value each up to the
  application jar, and \<open>--conf\<close> values split at the first equals sign, later ones winning.\<close>

fun submit_confs :: "string list \<Rightarrow> HashMap \<Rightarrow> HashMap" where
  "submit_confs (flag # v # rest) acc =
     (if flag = ''--conf'' then
        (case split_once (CHR ''='') v of
           Some (k, x) \<Rightarrow> submit_confs rest (hm_insert k x acc)
         | None \<Rightarrow> submit_confs rest acc)
      else if flag \<in> {''--master'', ''--deploy-mode'', ''--class'', ''--proxy-user''}
      then submit_confs rest acc
      else acc)"
| "submit_confs _ acc = acc"

definition internal_configs :: "SparkLauncher \<Rightarrow> string \<Rightarrow> HashMap" where
  "internal_configs l token =
     [(TOKEN_CONFIG, token), (CALLBACK_CONFIG, callback_addr l),
      (TIMEOUT_CONFIG, show_nat (unat (sl_session_timeout l))),
      (LISTENER_CONFIG, LISTENER_CLASS), (INTERCEPTOR_CONFIG, INTERCEPTOR_CLASS),
      (GRPC_PORT_CONFIG, ''0'')]"

text \<open>Iterating a \<open>HashMap\<close> visits every entry once, in some order.\<close>

definition visits_once :: "(HashMap \<Rightarrow> HashMap) \<Rightarrow> bool" where
  "visits_once iter \<longleftrightarrow> (\<forall>m. mset (iter m) = mset m)"

definition plain_keys :: "HashMap \<Rightarrow> bool" where
  "plain_keys m \<longleftrightarrow> list_all (\<lambda>(k, v). CHR ''='' \<notin> set k) m"

definition version_wf :: "SparkVersion \<Rightarrow> bool" where
  "version_wf v \<longleftrightarrow>
     list_all hm_wf [unwrap_or (sv_default_configs v) [], unwrap_or (sv_merge_configs v) [],
       unwrap_or (sv_override_configs v) []]"

definition version_plain :: "SparkVersion \<Rightarrow> bool" where
  "version_plain v \<longleftrightarrow>
     list_all plain_keys [unwrap_or (sv_default_configs v) [], unwrap_or (sv_merge_configs v) [],
       unwrap_or (sv_override_configs v) []]"

definition remote_path :: "string \<Rightarrow> bool" where
  "remote_path s \<longleftrightarrow>
     trim s = [] \<or> contains_str (trim s) ''://'' \<and> \<not> starts_with (trim s) ''file://''"

text \<open>The value \<open>spark-submit\<close> reads for a key, if there is a command line, and the iteration order in which
  the entries whose keys contain an equals sign come last.\<close>

definition submit_reads :: "string \<Rightarrow> (string \<times> string list, io_error) Result \<Rightarrow> string option" where
  "submit_reads k r = (case r of Ok (path, args) \<Rightarrow> hm_get (submit_confs args []) k | Err _ \<Rightarrow> None)"

definition plain_first :: "HashMap \<Rightarrow> HashMap" where
  "plain_first m = filter (\<lambda>(k, v). CHR ''='' \<notin> set k) m @ filter (\<lambda>(k, v). CHR ''='' \<in> set k) m"

section \<open>Lemmas\<close>

lemma hm_get_merge_config [hm_simps]:
  "hm_get (merge_config (k, v) m) k' =
     (if k' = k then Some (case hm_get m k of None \<Rightarrow> v | Some e \<Rightarrow> e @ '','' @ v) else hm_get m k')"
  by (simp add: merge_config_def hm_simps split: option.splits)

lemma hm_wf_merge_config [simp]: "hm_wf m \<Longrightarrow> hm_wf (merge_config kv m)"
  by (cases kv) (simp add: merge_config_def split: option.splits)

lemma hm_wf_fold_merge [simp]: "hm_wf m \<Longrightarrow> hm_wf (fold merge_config ms m)"
  by (induction ms arbitrary: m) simp_all

lemma hm_get_fold_merge:
  assumes "hm_wf ms"
  shows "hm_get (fold merge_config ms m) k =
    (case hm_get ms k of
       None \<Rightarrow> hm_get m k
     | Some v \<Rightarrow> Some (case hm_get m k of None \<Rightarrow> v | Some e \<Rightarrow> e @ '','' @ v))"
  using assms
proof (induction ms arbitrary: m)
  case (Cons p ms)
  obtain k' v where p: "p = (k', v)" by (cases p)
  have wf: "hm_wf ms" and none: "hm_get ms k' = None"
    using Cons.prems by (auto simp: hm_wf_def p hm_get_def map_of_eq_None_iff)
  show ?case
    using Cons.IH [OF wf, of "merge_config (k', v) m"] none
    by (auto simp: p hm_simps hm_get_Cons split: option.splits)
qed (simp add: hm_simps)

lemma hm_wf_build_conf: "version_wf v \<Longrightarrow> hm_wf (build_conf v u)"
  by (auto simp: build_conf_def version_wf_def Let_def split: option.splits)

lemma hm_get_build_conf:
  assumes "version_wf v" and "hm_wf u"
  shows "hm_get (build_conf v u) k = conf_spec v u k"
  using assms
  by (auto simp: build_conf_def conf_spec_def version_wf_def Let_def hm_simps hm_get_fold_merge
      split: option.splits)

subsection \<open>Keys without an equals sign\<close>

lemma plain_keys_insert [simp]:
  "plain_keys m \<Longrightarrow> CHR ''='' \<notin> set k \<Longrightarrow> plain_keys (hm_insert k v m)"
  unfolding plain_keys_def hm_insert_def by (induction m) auto

lemma plain_keys_fold:
  assumes "\<And>p m. plain_keys m \<Longrightarrow> p \<in> set ps \<Longrightarrow> plain_keys (f p m)"
  shows "plain_keys m \<Longrightarrow> plain_keys (fold f ps m)"
  using assms by (induction ps arbitrary: m) auto

lemma plain_keys_extend [simp]: "plain_keys m \<Longrightarrow> plain_keys ps \<Longrightarrow> plain_keys (hm_extend m ps)"
  unfolding hm_extend_def
  by (rule plain_keys_fold) (auto simp: plain_keys_def [of ps] list_all_iff)

lemma plain_keys_merge [simp]: "plain_keys m \<Longrightarrow> plain_keys ms \<Longrightarrow> plain_keys (fold merge_config ms m)"
  by (rule plain_keys_fold)
    (auto simp: plain_keys_def [of ms] list_all_iff merge_config_def split: option.splits)

lemma plain_keys_build_conf:
  "version_plain v \<Longrightarrow> plain_keys u \<Longrightarrow> plain_keys (build_conf v u)"
  by (auto simp: build_conf_def version_plain_def Let_def split: option.splits)

lemma plain_keys_internal [simp]: "plain_keys m \<Longrightarrow> plain_keys (add_internal_configs l t m)"
  by (simp add: add_internal_configs_def config_keys)

lemma plain_keys_submit_configs:
  "version_plain v \<Longrightarrow> plain_keys u \<Longrightarrow> plain_keys (submit_configs l v i an t u ve)"
  using plain_keys_build_conf [of v u]
  by (auto simp: submit_configs_def add_venv_def add_app_name_def Let_def config_keys
      split: option.splits)

lemma hm_wf_submit_configs:
  "version_wf v \<Longrightarrow> hm_wf (submit_configs l v i an t u ve)"
  using hm_wf_build_conf [of v u]
  by (auto simp: submit_configs_def add_venv_def add_app_name_def add_internal_configs_def Let_def
      split: option.splits)

subsection \<open>Reading the command line\<close>

lemma submit_confs_conf_flags:
  "plain_keys cs \<Longrightarrow>
   submit_confs (conf_flags cs @ rest) acc = submit_confs rest (hm_extend acc cs)"
  unfolding hm_extend_def
proof (induction cs arbitrary: acc)
  case (Cons p cs)
  obtain k v where p: "p = (k, v)" by (cases p)
  have "CHR ''='' \<notin> set k" "plain_keys cs" using Cons.prems by (auto simp: plain_keys_def p)
  moreover from this have "split_once (CHR ''='') (k @ ''='' @ v) = Some (k, v)"
    using split_once_append [of "CHR ''=''" k v] by simp
  ultimately show ?case using Cons.IH by (simp add: conf_flags_def p)
qed (simp add: conf_flags_def)

lemma hm_get_mset_eq:
  "hm_wf m \<Longrightarrow> mset m' = mset m \<Longrightarrow> hm_wf m' \<and> hm_get m' k = hm_get m k"
proof -
  assume wf: "hm_wf m" and eq: "mset m' = mset m"
  have "mset (map fst m') = mset (map fst m)" using eq by simp
  with wf have wf': "hm_wf m'"
    unfolding hm_wf_def using mset_eq_imp_distinct_iff by blast
  have "set m' = set m" using eq by (rule mset_eq_setD)
  with wf wf' have "map_of m' = map_of m"
    unfolding hm_wf_def by (simp add: map_of_inject_set)
  with wf' show ?thesis by (simp add: hm_get_def)
qed

lemma plain_keys_mset_eq: "plain_keys m \<Longrightarrow> mset m' = mset m \<Longrightarrow> plain_keys m'"
  unfolding plain_keys_def list_all_iff by (metis mset_eq_setD)

lemma build_submit_command_Ok:
  assumes "build_submit_command iter l v i an user t u ve = Ok (path, args)"
  shows "validate_file_configs u = Ok ()"
    and "\<exists>pre post. args = pre @ conf_flags (iter (submit_configs l v i an t u ve)) @ post \<and>
       (\<forall>rest acc. submit_confs (pre @ rest) acc = submit_confs rest acc) \<and>
       (\<forall>acc. submit_confs post acc = acc)"
proof -
  let ?pre = "(case sv_master v of None \<Rightarrow> [] | Some m \<Rightarrow> [''--master'', m])
             @ (case sv_deploy_mode v of None \<Rightarrow> [] | Some d \<Rightarrow> [''--deploy-mode'', d])"
  let ?post = "[''--class'', SERVER_CLASS]
             @ (if unwrap_or (sv_proxy_user v) False then [''--proxy-user'', user] else [])
             @ [sl_plugin_path l]"
  show "validate_file_configs u = Ok ()"
    using assms by (auto simp: build_submit_command_def)
  have "args = ?pre @ conf_flags (iter (submit_configs l v i an t u ve)) @ ?post"
    using assms by (auto simp: build_submit_command_def Let_def)
  moreover have "submit_confs (?pre @ rest) acc = submit_confs rest acc" for rest acc
    by (simp split: option.splits)
  moreover have "submit_confs ?post acc = acc" for acc by simp
  ultimately show "\<exists>pre post. args = pre @ conf_flags (iter (submit_configs l v i an t u ve)) @ post \<and>
       (\<forall>rest acc. submit_confs (pre @ rest) acc = submit_confs rest acc) \<and>
       (\<forall>acc. submit_confs post acc = acc)"
    by blast
qed

text \<open>Whatever the iteration order, \<open>spark-submit\<close> sees the assembled configuration.\<close>

lemma submit_confs_eq:
  assumes "build_submit_command iter l v i an user t u ve = Ok (path, args)"
    and "visits_once iter" "version_wf v" "version_plain v" "plain_keys u"
  shows "hm_get (submit_confs args []) k = hm_get (submit_configs l v i an t u ve) k"
proof -
  let ?c = "submit_configs l v i an t u ve"
  have m: "mset (iter ?c) = mset ?c" using assms(2) by (simp add: visits_once_def)
  have wf: "hm_wf (iter ?c)" and get: "hm_get (iter ?c) k = hm_get ?c k" for k
    using hm_get_mset_eq [OF hm_wf_submit_configs [OF assms(3)] m] by auto
  have "plain_keys (iter ?c)"
    using plain_keys_mset_eq [OF plain_keys_submit_configs [OF assms(4,5)] m] .
  then have "submit_confs args [] = hm_extend [] (iter ?c)"
    using build_submit_command_Ok(2) [OF assms(1)] by (auto simp: submit_confs_conf_flags)
  then show ?thesis
    using wf get by (simp add: hm_simps split: option.splits)
qed

lemma hm_get_internal:
  "(k, x) \<in> set (internal_configs l t) \<Longrightarrow>
   hm_get (submit_configs l v i an t u ve) k = Some x"
  by (auto simp: internal_configs_def submit_configs_def add_venv_def add_internal_configs_def
      Let_def hm_simps config_keys split: option.splits)

subsection \<open>File configurations\<close>

lemma validate_segments_Ok_iff:
  "validate_segments key segs = Ok () \<longleftrightarrow> list_all remote_path segs"
  by (induction segs) (auto simp: remote_path_def Let_def)

lemma validate_keys_Ok_iff:
  "validate_keys keys m = Ok () \<longleftrightarrow>
   list_all (\<lambda>key. case hm_get m key of None \<Rightarrow> True
                   | Some v \<Rightarrow> list_all remote_path (split_char (CHR '','') v)) keys"
  by (induction keys) (auto simp: validate_segments_Ok_iff split: option.splits)

subsection \<open>Keys with an equals sign\<close>

lemma plain_keys_get: "plain_keys m \<Longrightarrow> CHR ''='' \<in> set k \<Longrightarrow> hm_get m k = None"
  by (induction m) (auto simp: plain_keys_def hm_get_def)

lemma conf_spec_inject:
  assumes "version_plain v" and "plain_keys u" and "CHR ''='' \<in> set kx"
  shows "conf_spec v ((kx, y) # u) j = (if j = kx then Some y else conf_spec v u j)"
  using assms by (auto simp: conf_spec_def version_plain_def plain_keys_get hm_get_Cons split: option.splits)

text \<open>Two hash maps that differ by the entry of one key only, and what keeps them so.\<close>

definition differ_by :: "string \<Rightarrow> string \<Rightarrow> HashMap \<Rightarrow> HashMap \<Rightarrow> bool" where
  "differ_by kx y m m' \<longleftrightarrow> (\<forall>j. hm_get m' j = (if j = kx then Some y else hm_get m j))"

lemma differ_by_get: "differ_by kx y m m' \<Longrightarrow> j \<noteq> kx \<Longrightarrow> hm_get m' j = hm_get m j"
  by (simp add: differ_by_def)

lemma differ_by_insert: "differ_by kx y m m' \<Longrightarrow> k \<noteq> kx \<Longrightarrow> differ_by kx y (hm_insert k v m) (hm_insert k v m')"
  by (auto simp: differ_by_def hm_simps)

lemma submit_configs_inject:
  assumes "version_wf v" and "version_plain v" and "hm_wf u" and "plain_keys u" and "CHR ''='' \<in> set kx"
  shows "hm_get (submit_configs l v i an t ((kx, y) # u) ve) j =
     (if j = kx then Some y else hm_get (submit_configs l v i an t u ve) j)"
proof -
  have "kx \<notin> fst ` set u" using assms(4,5) by (auto simp: plain_keys_def list_all_iff)
  with assms(3) have wf: "hm_wf ((kx, y) # u)" by (simp add: hm_wf_def)
  have ne: "APP_NAME_CONFIG \<noteq> kx" "TOKEN_CONFIG \<noteq> kx" "CALLBACK_CONFIG \<noteq> kx" "TIMEOUT_CONFIG \<noteq> kx"
    "LISTENER_CONFIG \<noteq> kx" "INTERCEPTOR_CONFIG \<noteq> kx" "GRPC_PORT_CONFIG \<noteq> kx" "''spark.archives'' \<noteq> kx"
    "''spark.sql.execution.pyspark.python'' \<noteq> kx"
    using assms(5) by (auto simp: config_keys)
  have "differ_by kx y (build_conf v u) (build_conf v ((kx, y) # u))"
    by (simp add: differ_by_def hm_get_build_conf [OF assms(1) wf] hm_get_build_conf [OF assms(1,3)]
        conf_spec_inject [OF assms(2,4,5)])
  then have "differ_by kx y (add_app_name an i (build_conf v u)) (add_app_name an i (build_conf v ((kx, y) # u)))"
    using ne(1) by (auto simp: add_app_name_def differ_by_get differ_by_insert split: option.splits)
  then have "differ_by kx y (add_internal_configs l t (add_app_name an i (build_conf v u)))
      (add_internal_configs l t (add_app_name an i (build_conf v ((kx, y) # u))))"
    unfolding add_internal_configs_def by (intro differ_by_insert ne)
  then have "differ_by kx y (submit_configs l v i an t u ve) (submit_configs l v i an t ((kx, y) # u) ve)"
    unfolding submit_configs_def add_venv_def Let_def
    using ne(8,9) by (auto simp: differ_by_get intro!: differ_by_insert split: option.splits)
  then show ?thesis by (simp add: differ_by_def)
qed

lemma validate_file_configs_inject:
  assumes "validate_file_configs u = Ok ()" and "CHR ''='' \<in> set kx"
  shows "validate_file_configs ((kx, y) # u) = Ok ()"
proof -
  have "hm_get ((kx, y) # u) key = hm_get u key" if "key \<in> set file_config_keys" for key
    using that assms(2) by (auto simp: hm_get_Cons file_config_keys_def)
  with assms(1) show ?thesis by (simp add: validate_file_configs_def validate_keys_Ok_iff list_all_iff)
qed

lemma injected_split:
  assumes "hm_wf m" and "(kx, y) \<in> set m" and "\<And>j z. (j, z) \<in> set m \<Longrightarrow> CHR ''='' \<in> set j \<Longrightarrow> j = kx \<and> z = y"
  obtains P S where "m = P @ (kx, y) # S" "plain_keys P" "plain_keys S"
proof -
  obtain P S where m: "m = P @ (kx, y) # S" using assms(2) by (auto simp: in_set_conv_decomp)
  then have "kx \<notin> fst ` set P" "kx \<notin> fst ` set S" using assms(1) by (auto simp: hm_wf_def)
  with assms(3) m have "plain_keys P" "plain_keys S" by (force simp: plain_keys_def list_all_iff)+
  with m that show thesis by blast
qed

lemma plain_first_visits: "visits_once plain_first"
  by (simp add: visits_once_def plain_first_def mset_filter split_beta multiset_partition [symmetric])

lemma submit_reads_inject:
  assumes v: "validate_file_configs u = Ok ()"
    and m: "iter (submit_configs l v i an t u ve) = P @ (k @ ''='' @ x, y) # S"
    and k: "CHR ''='' \<notin> set k" and "plain_keys P" and S: "plain_keys S" and none: "hm_get S k = None"
  shows "submit_reads k (build_submit_command iter l v i an user t u ve) = Some (x @ ''='' @ y)"
proof -
  obtain path args where b: "build_submit_command iter l v i an user t u ve = Ok (path, args)"
    using v by (simp add: build_submit_command_def Let_def)
  have split: "split_once (CHR ''='') (k @ ''='' @ x @ ''='' @ y) = Some (k, x @ ''='' @ y)"
    using split_once_append [of "CHR ''=''" k "x @ ''='' @ y"] k by simp
  have conf: "submit_confs (conf_flags (P @ (k @ ''='' @ x, y) # S) @ rest) [] =
      submit_confs rest (hm_extend (hm_insert k (x @ ''='' @ y) (hm_extend [] P)) S)" for rest
  proof -
    have "conf_flags (P @ (k @ ''='' @ x, y) # S) @ rest =
        conf_flags P @ ''--conf'' # (k @ ''='' @ x @ ''='' @ y) # conf_flags S @ rest"
      by (simp add: conf_flags_def)
    with assms(4) S split show ?thesis by (simp add: submit_confs_conf_flags)
  qed
  have "k \<notin> fst ` set S" using none by (simp add: hm_get_def map_of_eq_None_iff)
  then have "hm_get (hm_extend (hm_insert k (x @ ''='' @ y) acc) S) k = Some (x @ ''='' @ y)" for acc
    by (simp add: hm_extend_def hm_get_fold_insert_notin hm_get_insert)
  then show ?thesis
    using build_submit_command_Ok(2) [OF b] by (auto simp: m b submit_reads_def conf [unfolded append_Cons append_Nil])
qed

subsection \<open>A successful launch\<close>

lemma launch_OkD:
  assumes "launch os ops iter l version_name session_id name user token user_config packages n
             = (Ok handle, n')"
  shows "\<exists>version venv n1 args child env.
     select_version l version_name = Ok version \<and>
     launch_venv os ops version packages n = (Ok venv, n1) \<and>
     validate_file_configs user_config = Ok () \<and>
     build_submit_command iter l version session_id name user token user_config venv
       = Ok (path_join (path_join (sv_home version) ''bin'') ''spark-submit'', args) \<and>
     spawn ops (path_join (path_join (sv_home version) ''bin'') ''spark-submit'') args env n1
       = (Ok child, n') \<and>
     hm_get env ''SPARK_HOME'' = Some (sv_home version) \<and>
     handle = (child, sl_launch_timeout l)"
proof -
  obtain version where v: "select_version l version_name = Ok version"
    using assms by (auto simp: launch_def split: Result.splits)
  obtain venv n1 where ve: "launch_venv os ops version packages n = (Ok venv, n1)"
    using assms v by (auto simp: launch_def split: Result.splits prod.splits)
  obtain path args where b: "build_submit_command iter l version session_id name user token
      user_config venv = Ok (path, args)"
    using assms v ve by (auto simp: launch_def split: Result.splits prod.splits)
  have path: "path = path_join (path_join (sv_home version) ''bin'') ''spark-submit''"
    using b by (auto simp: build_submit_command_def Let_def)
  obtain child where c: "spawn ops path args (launch_env os version) n1 = (Ok child, n')"
      "handle = (child, sl_launch_timeout l)"
    using assms v ve b by (auto simp: launch_def track_launch_def split: Result.splits prod.splits)
  have "hm_get (launch_env os version) ''SPARK_HOME'' = Some (sv_home version)"
    by (simp add: launch_env_def Let_def hm_simps)
  with v ve b c path build_submit_command_Ok(1) [OF b] show ?thesis by blast
qed

section \<open>Properties\<close>

text \<open>C25: the configuration of a session follows the documented precedence for every key: a forced
  value wins over everything, then the user's value or else the default, with the version's merge
  value appended to it after a comma.\<close>

theorem build_conf_precedence:
  assumes "version_wf version" and "hm_wf user_config"
  shows "hm_get (build_conf version user_config) k = conf_spec version user_config k"
  using assms by (rule hm_get_build_conf)

definition demo_version :: SparkVersion where
  "demo_version = SparkVersion_default\<lparr>sv_name := ''default'', sv_home := ''/opt/spark'',
     sv_default_configs := Some [(''a'', ''default''), (''b'', ''default'')],
     sv_merge_configs := Some [(''c'', ''merge''), (''e'', ''merge-only'')],
     sv_override_configs := Some [(''d'', ''override'')]\<rparr>"

definition demo_user_config :: HashMap where
  "demo_user_config = [(''a'', ''user''), (''c'', ''user''), (''d'', ''user'')]"

definition demo_launcher :: SparkLauncher where
  "demo_launcher = \<lparr>versions = [demo_version], callback_addr = ''http://localhost:8100'',
     sl_launch_timeout = 60, sl_session_timeout = 60, sl_plugin_path = ''/path/to/plugin'',
     plugin_temp_path = None\<rparr>"

theorem build_conf_precedence_witness:
  "version_wf demo_version \<and> hm_wf demo_user_config \<and>
   map (hm_get (build_conf demo_version demo_user_config)) [''a'', ''b'', ''c'', ''d'', ''e'', ''f''] =
     [Some ''user'', Some ''default'', Some ''user,merge'', Some ''override'', Some ''merge-only'', None]"
proof -
  have h: "version_wf demo_version" "hm_wf demo_user_config"
    by (simp_all add: version_wf_def hm_wf_def demo_version_def demo_user_config_def
        SparkVersion_default_def)
  show ?thesis
    using h build_conf_precedence [OF h]
    by (simp add: conf_spec_def demo_version_def demo_user_config_def SparkVersion_default_def
        hm_get_def)
qed

text \<open>C4: whatever the user and the version configure (with keys that contain no equals sign), and
  whatever order the hash map is iterated in, \<open>spark-submit\<close> reads the server's own token, callback
  address, idle timeout, listener, interceptor and port: users cannot override them.\<close>

theorem internal_configs_enforced:
  assumes "build_submit_command iter l version session_id name user token user_config venv
             = Ok (path, args)"
    and "visits_once iter" and "version_wf version"
    and "version_plain version" and "plain_keys user_config"
  shows "list_all (\<lambda>(k, v). hm_get (submit_confs args []) k = Some v) (internal_configs l token)"
  using submit_confs_eq [OF assms] hm_get_internal by (auto simp: list_all_iff)

theorem internal_configs_enforced_witness:
  "\<exists>args. build_submit_command rev demo_launcher demo_version 1 None ''user'' ''abcd''
       [(TOKEN_CONFIG, ''evil'')] None = Ok (''/opt/spark/bin/spark-submit'', args) \<and>
     hm_get (submit_confs args []) TOKEN_CONFIG = Some ''abcd''"
proof -
  obtain args where b: "build_submit_command rev demo_launcher demo_version 1 None ''user'' ''abcd''
       [(TOKEN_CONFIG, ''evil'')] None = Ok (''/opt/spark/bin/spark-submit'', args)"
    by (simp add: build_submit_command_def validate_file_configs_def file_config_keys_def
        hm_get_def config_keys Let_def path_join_def starts_with_def demo_version_def)
  have "visits_once rev" "version_wf demo_version" "version_plain demo_version"
    "plain_keys [(TOKEN_CONFIG, ''evil'')]"
    by (simp_all add: visits_once_def version_wf_def version_plain_def plain_keys_def hm_wf_def
        demo_version_def SparkVersion_default_def config_keys)
  from internal_configs_enforced [OF b this] b show ?thesis
    by (auto simp: internal_configs_def)
qed

text \<open>C26: a user configuration passes the file check exactly when every comma separated entry of
  the three file keys is blank or contains \<open>://\<close> and does not start with \<open>file://\<close>; no command
  line is built for one that does not pass.\<close>

theorem file_check_characterisation:
  "(validate_file_configs u = Ok () \<longleftrightarrow>
      list_all (\<lambda>key. case hm_get u key of None \<Rightarrow> True
                     | Some v \<Rightarrow> list_all remote_path (split_char (CHR '','') v))
        [''spark.files'', ''spark.archives'', ''spark.submit.pyFiles'']) \<and>
   is_ok (build_submit_command iter l version session_id name user token u venv)
     = is_ok (validate_file_configs u)"
proof
  show "validate_file_configs u = Ok () \<longleftrightarrow>
      list_all (\<lambda>key. case hm_get u key of None \<Rightarrow> True
                     | Some v \<Rightarrow> list_all remote_path (split_char (CHR '','') v))
        [''spark.files'', ''spark.archives'', ''spark.submit.pyFiles'']"
    by (simp only: validate_file_configs_def validate_keys_Ok_iff file_config_keys_def)
  show "is_ok (build_submit_command iter l version session_id name user token u venv)
     = is_ok (validate_file_configs u)"
    by (cases "validate_file_configs u") (auto simp: build_submit_command_def Let_def)
qed

text \<open>The check looks at the text of an entry only: a local path is accepted when \<open>://\<close> occurs
  anywhere in it, for instance in the fragment that renames the file.\<close>

lemma file_check_accepts_local_path:
  "validate_file_configs [(''spark.files'', ''/etc/passwd#a://b'')] = Ok () \<and>
   \<not> is_ok (validate_file_configs [(''spark.files'', ''/etc/passwd'')])"
  by (simp add: validate_file_configs_def file_config_keys_def hm_get_def trim_graphic_id
      graphic_def starts_with_def Let_def)

text \<open>C37: a configuration key of the user with an equals sign in it is a way around the checks. Whatever
  key \<open>k\<close> the user wants to set and whatever else is configured, the entry \<open>k=x\<close> with value \<open>y\<close> passes
  the file check, a command line is built, and \<open>spark-submit\<close>, which splits at the first equals
  sign, reads \<open>x=y\<close> for \<open>k\<close>: in every iteration order if \<open>k\<close> is not set otherwise (so \<open>spark.files\<close> can
  name any local file), and in some iteration order even if \<open>k\<close> is forced by the version or set by the
  server itself.\<close>

theorem conf_key_injection:
  assumes "CHR ''='' \<notin> set k" and "version_wf version" and "version_plain version"
    and "hm_wf user_config" and "plain_keys user_config" and "validate_file_configs user_config = Ok ()"
  shows "(\<forall>iter. visits_once iter \<and> hm_get (submit_configs l version session_id name token user_config venv) k = None \<longrightarrow>
       submit_reads k (build_submit_command iter l version session_id name user token
         ((k @ ''='' @ x, y) # user_config) venv) = Some (x @ ''='' @ y)) \<and>
     (\<exists>iter. visits_once iter \<and>
       submit_reads k (build_submit_command iter l version session_id name user token
         ((k @ ''='' @ x, y) # user_config) venv) = Some (x @ ''='' @ y))"
proof (intro conjI allI impI)
  let ?K = "k @ ''='' @ x"
  let ?c = "submit_configs l version session_id name token user_config venv"
  let ?C = "submit_configs l version session_id name token ((?K, y) # user_config) venv"
  let ?reads = "\<lambda>iter. submit_reads k (build_submit_command iter l version session_id name user token
         ((?K, y) # user_config) venv) = Some (x @ ''='' @ y)"
  have get: "hm_get ?C j = (if j = ?K then Some y else hm_get ?c j)" for j
    by (rule submit_configs_inject) (use assms in simp_all)
  have wf: "hm_wf ?C" by (rule hm_wf_submit_configs [OF assms(2)])
  have only: "j = ?K \<and> z = y" if "(j, z) \<in> set ?C" "CHR ''='' \<in> set j" for j z
  proof -
    have "hm_get ?C j = Some z" using that(1) by (simp only: hm_get_mem [OF wf])
    moreover have "hm_get ?c j = None" by (rule plain_keys_get [OF plain_keys_submit_configs [OF assms(3,5)] that(2)])
    ultimately show ?thesis using get [of j] by (auto split: if_splits)
  qed
  have mem: "(?K, y) \<in> set ?C" using get [of ?K] by (simp only: hm_get_mem [OF wf] simp_thms if_True)
  have val: "validate_file_configs ((?K, y) # user_config) = Ok ()"
    by (rule validate_file_configs_inject [OF assms(6)]) simp
  have reads: "?reads iter" if "iter ?C = P @ (?K, y) # S" "plain_keys P" "plain_keys S" "hm_get S k = None" for iter P S
    using val that assms(1) by (intro submit_reads_inject)
  {
    fix iter assume iter: "visits_once iter \<and> hm_get ?c k = None"
    then have m: "mset (iter ?C) = mset ?C" by (simp add: visits_once_def)
    have "hm_wf (iter ?C)" using hm_get_mset_eq [OF wf m] by blast
    with only mem mset_eq_setD [OF m] obtain P S where
      PS: "iter ?C = P @ (?K, y) # S" "plain_keys P" "plain_keys S"
      by (elim injected_split [of "iter ?C" ?K y]) auto
    have "hm_get ?C k = None" using iter get [of k] by simp
    then have "hm_get (P @ (?K, y) # S) k = None" using hm_get_mset_eq [OF wf m, of k] unfolding PS(1) by simp
    then have "hm_get S k = None" by (auto simp: hm_get_def map_of_eq_None_iff)
    with PS show "?reads iter" by (intro reads) auto
  }
  obtain P S where PS: "?C = P @ (?K, y) # S" "plain_keys P" "plain_keys S"
    using only mem by (elim injected_split [OF wf, of ?K y]) auto
  have "plain_first ?C = (P @ S) @ (?K, y) # []"
    using PS by (simp add: plain_first_def plain_keys_def list_all_iff filter_id_conv filter_empty_conv split_beta)
  moreover have "plain_keys (P @ S)" "plain_keys []" "hm_get [] k = None" using PS by (simp_all add: plain_keys_def hm_simps)
  ultimately have "?reads plain_first" by (rule reads)
  then show "\<exists>iter. visits_once iter \<and> ?reads iter" using plain_first_visits by blast
qed

theorem conf_key_injection_witness:
  "submit_reads ''spark.files'' (build_submit_command rev demo_launcher demo_version 1 None ''user'' ''abcd''
      [(''spark.files=/etc/passwd'', ''x'')] None) = Some ''/etc/passwd=x'' \<and>
   (\<exists>iter. visits_once iter \<and>
      submit_reads TOKEN_CONFIG (build_submit_command iter demo_launcher demo_version 1 None ''user'' ''abcd''
        [(TOKEN_CONFIG @ ''=evil'', ''x'')] None) = Some ''evil=x'')"
proof -
  have h: "version_wf demo_version" "version_plain demo_version" "hm_wf ([] :: HashMap)" "plain_keys []"
    "validate_file_configs [] = Ok ()" "CHR ''='' \<notin> set ''spark.files''" "CHR ''='' \<notin> set TOKEN_CONFIG"
    by code_simp+
  have none: "visits_once rev"
    "hm_get (submit_configs demo_launcher demo_version 1 None ''abcd'' [] None) ''spark.files'' = None"
    by (simp add: visits_once_def) code_simp
  show ?thesis
    using conf_key_injection [OF h(6) h(1-5), of demo_launcher 1 None "''abcd''" None "''user''" "''/etc/passwd''" "''x''",
        THEN conjunct1, rule_format, OF conjI [OF none]]
      conf_key_injection [OF h(7) h(1-5), of demo_launcher 1 None "''abcd''" None "''user''" "''evil''" "''x''"]
    by simp
qed

text \<open>C36: the name given when creating an application replaces the Spark application name even
  when the version forces one in \<open>override_configs\<close>; without a name the assembled value stands,
  and only when there is none the name is derived from the session id.\<close>

theorem app_name_precedence:
  assumes "version_wf version" and "hm_wf user_config"
  shows "hm_get (submit_configs l version session_id name token user_config venv) APP_NAME_CONFIG =
     (case name of
        Some n \<Rightarrow> Some n
      | None \<Rightarrow> (case conf_spec version user_config APP_NAME_CONFIG of
                   Some n \<Rightarrow> Some n
                 | None \<Rightarrow> Some (''spark-plug-session-'' @ show_int session_id)))"
  using hm_get_build_conf [OF assms, of APP_NAME_CONFIG]
  by (auto simp: submit_configs_def add_venv_def add_internal_configs_def add_app_name_def
      hm_simps Let_def config_keys split: option.splits)

theorem app_name_precedence_witness:
  "hm_get (submit_configs demo_launcher
      (demo_version\<lparr>sv_override_configs := Some [(APP_NAME_CONFIG, ''forced'')]\<rparr>)
      7 (Some ''mine'') ''t'' [] None) APP_NAME_CONFIG = Some ''mine'' \<and>
   hm_get (submit_configs demo_launcher demo_version 7 None ''t'' [] None) APP_NAME_CONFIG
     = Some ''spark-plug-session-7''"
proof -
  have h: "version_wf (demo_version\<lparr>sv_override_configs := Some [(APP_NAME_CONFIG, ''forced'')]\<rparr>)"
    "version_wf demo_version" "hm_wf ([] :: HashMap)"
    by (simp_all add: version_wf_def hm_wf_def demo_version_def SparkVersion_default_def)
  have "conf_spec demo_version [] APP_NAME_CONFIG = None" "show_int 7 = ''7''"
    by code_simp+
  then show ?thesis
    using app_name_precedence [OF h(1,3)] app_name_precedence [OF h(2,3)] by simp
qed

definition demo_host :: host where
  "demo_host = \<lparr>which_exe = (\<lambda>_. None), env_var = (\<lambda>_. None), path_exists = (\<lambda>_. True),
     run_find_spark_home = (\<lambda>p. Err p), host_local_ip = Ok ''127.0.0.1'', embedded_plugin = None,
     manifest_dir = ''/src/server'', is_windows = False, is_macos = False\<rparr>"

text \<open>A process table: every spawned command line, in order.\<close>

definition demo_procs :: "(string \<times> string list) list proc_ops" where
  "demo_procs = \<lparr>temp_dir = (\<lambda>p n. (Ok ''/tmp/spark-plug-venv1'', n)),
     run_status = (\<lambda>c as n. (Ok True, n @ [(c, as)])),
     spawn = (\<lambda>c as env n. (Ok (length n), n @ [(c, as)]))\<rparr>"

end
