(* ===== verification/Application_Entity.thy ===== *)
theory Application_Entity
  imports Plug_Prelude
begin

text \<open>
  The \<open>application\<close> table (\<open>server/src/entities/application.rs\<close>): the life-cycle state, the row
  type and the columns.
  The statements the server sends (column assignments and filters) are data of the types
  \<open>assignment\<close> and \<open>cond\<close>; \<open>set_cols\<close> and \<open>holds\<close> give the meaning SQL documents for them.
\<close>

section \<open>Definitions\<close>

subsection \<open>Rows\<close>

datatype State = LAUNCHING | RUNNING | FAILED | FINISHED

text \<open>\<open>DeriveActiveEnum\<close> with \<open>rs_type = "String"\<close> and \<open>rename_all = "UPPERCASE"\<close>.\<close>

fun to_value :: "State \<Rightarrow> string" where
  "to_value LAUNCHING = ''LAUNCHING''"
| "to_value RUNNING = ''RUNNING''"
| "to_value FAILED = ''FAILED''"
| "to_value FINISHED = ''FINISHED''"

definition try_from_value :: "string \<Rightarrow> (State, string) Result" where
  "try_from_value v =
     (if v = ''LAUNCHING'' then Ok LAUNCHING
      else if v = ''RUNNING'' then Ok RUNNING
      else if v = ''FAILED'' then Ok FAILED
      else if v = ''FINISHED'' then Ok FINISHED
      else Err v)"

text \<open>\<open>DateTimeUtc\<close>: an instant, in nanoseconds since the Unix epoch.\<close>

type_synonym DateTimeUtc = int

record Model =
  app_id :: int
  created_at :: DateTimeUtc
  username :: string
  app_name :: "string option"
  app_state :: State
  app_token :: string
  app_address :: "string option"
  application_id :: "string option"

subsection \<open>Statements\<close>

datatype Column = ColId | ColCreatedAt | ColUsername | ColName | ColState | ColToken
  | ColAddress | ColApplicationId

datatype sql_val = VInt int | VTime DateTimeUtc | VStr string | VState State | VNull

type_synonym assignment = "Column \<times> sql_val"

datatype cond =
    CEq Column sql_val
  | CIsIn Column "sql_val list"
  | CGte Column sql_val
  | CLte Column sql_val
  | CAny "cond list"

fun opt_val :: "string option \<Rightarrow> sql_val" where
  "opt_val None = VNull"
| "opt_val (Some s) = VStr s"

fun col_val :: "Column \<Rightarrow> Model \<Rightarrow> sql_val" where
  "col_val ColId m = VInt (app_id m)"
| "col_val ColCreatedAt m = VTime (created_at m)"
| "col_val ColUsername m = VStr (username m)"
| "col_val ColName m = opt_val (app_name m)"
| "col_val ColState m = VState (app_state m)"
| "col_val ColToken m = VStr (app_token m)"
| "col_val ColAddress m = opt_val (app_address m)"
| "col_val ColApplicationId m = opt_val (application_id m)"

fun val_le :: "sql_val \<Rightarrow> sql_val \<Rightarrow> bool" where
  "val_le (VInt a) (VInt b) = (a \<le> b)"
| "val_le (VTime a) (VTime b) = (a \<le> b)"
| "val_le _ _ = False"

text \<open>A comparison with \<open>NULL\<close> is never true in SQL.\<close>

fun holds :: "cond \<Rightarrow> Model \<Rightarrow> bool" where
  "holds (CEq c v) m = (v \<noteq> VNull \<and> col_val c m = v)"
| "holds (CIsIn c vs) m = (col_val c m \<noteq> VNull \<and> col_val c m \<in> set vs)"
| "holds (CGte c v) m = val_le v (col_val c m)"
| "holds (CLte c v) m = val_le (col_val c m) v"
| "holds (CAny cs) m = (\<exists>c \<in> set cs. holds c m)"

definition holds_all :: "cond list \<Rightarrow> Model \<Rightarrow> bool" where
  "holds_all cs m \<longleftrightarrow> (\<forall>c \<in> set cs. holds c m)"

fun set_col :: "assignment \<Rightarrow> Model \<Rightarrow> Model" where
  "set_col (ColId, VInt i) m = m\<lparr>app_id := i\<rparr>"
| "set_col (ColCreatedAt, VTime t) m = m\<lparr>created_at := t\<rparr>"
| "set_col (ColUsername, VStr s) m = m\<lparr>username := s\<rparr>"
| "set_col (ColName, VStr s) m = m\<lparr>app_name := Some s\<rparr>"
| "set_col (ColName, VNull) m = m\<lparr>app_name := None\<rparr>"
| "set_col (ColState, VState s) m = m\<lparr>app_state := s\<rparr>"
| "set_col (ColToken, VStr s) m = m\<lparr>app_token := s\<rparr>"
| "set_col (ColAddress, VStr s) m = m\<lparr>app_address := Some s\<rparr>"
| "set_col (ColAddress, VNull) m = m\<lparr>app_address := None\<rparr>"
| "set_col (ColApplicationId, VStr s) m = m\<lparr>application_id := Some s\<rparr>"
| "set_col (ColApplicationId, VNull) m = m\<lparr>application_id := None\<rparr>"
| "set_col _ m = m"

definition set_cols :: "assignment list \<Rightarrow> Model \<Rightarrow> Model" where
  "set_cols as m = fold set_col as m"

text \<open>The row an \<open>INSERT\<close> starts from: a generated key, \<open>created_at\<close> from
  \<open>DEFAULT CURRENT_TIMESTAMP\<close>, and \<open>NULL\<close> in every nullable column that is not assigned.\<close>

definition blank_row :: "int \<Rightarrow> DateTimeUtc \<Rightarrow> Model" where
  "blank_row i t = \<lparr>app_id = i, created_at = t, username = [], app_name = None,
     app_state = LAUNCHING, app_token = [], app_address = None, application_id = None\<rparr>"

text \<open>Which assignments leave the identity of a row (key, creation time, owner, token) alone.\<close>

definition keeps_identity :: "assignment list \<Rightarrow> bool" where
  "keeps_identity as \<longleftrightarrow>
     (\<forall>a \<in> set as. fst a \<notin> {ColId, ColCreatedAt, ColUsername, ColName, ColToken})"

definition identity :: "Model \<Rightarrow> int \<times> DateTimeUtc \<times> string \<times> string option \<times> string" where
  "identity m = (app_id m, created_at m, username m, app_name m, app_token m)"

section \<open>Lemmas\<close>

lemma try_from_to_value [simp]: "try_from_value (to_value s) = Ok s"
  by (cases s) (simp_all add: try_from_value_def)

lemma try_from_value_Ok: "try_from_value v = Ok s \<longleftrightarrow> v = to_value s"
  by (cases s) (auto simp: try_from_value_def)

lemma holds_all_simps [simp]:
  "holds_all [] m"
  "holds_all (c # cs) m \<longleftrightarrow> holds c m \<and> holds_all cs m"
  by (simp_all add: holds_all_def)

lemma holds_all_append [simp]: "holds_all (cs @ ds) m \<longleftrightarrow> holds_all cs m \<and> holds_all ds m"
  by (auto simp: holds_all_def)

lemma set_cols_simps [simp]:
  "set_cols [] m = m"
  "set_cols (a # as) m = set_cols as (set_col a m)"
  by (simp_all add: set_cols_def)

lemma identity_set_col:
  "fst a \<notin> {ColId, ColCreatedAt, ColUsername, ColName, ColToken} \<Longrightarrow>
   identity (set_col a m) = identity m"
  by (cases "(a, m)" rule: set_col.cases) (auto simp: identity_def)

lemma identity_set_cols: "keeps_identity as \<Longrightarrow> identity (set_cols as m) = identity m"
  unfolding keeps_identity_def
  by (induction as arbitrary: m) (simp_all add: identity_set_col)

end
