(* ===== verification/App_Store.thy ===== *)
theory App_Store
  imports Application_Entity
begin

text \<open>
  The database as the server sees it. SeaORM and the database engine are not part of the
  repository, so the operations the server calls on a \<open>DatabaseConnection\<close> are a record of
  functions over an abstract database state; every operation of the model that touches the
  database takes this record as an argument. The locale \<open>app_store\<close> states what the server
  relies on: each statement is atomic, a statement that fails changes nothing, and a statement
  that succeeds has the effect SQL documents on the rows of the \<open>application\<close> table.
  Clients prove their database lemmas once, inside the locale.

  \<open>mem_db\<close> is an in-memory table (the server's default \<open>store\<close> is \<open>sqlite::memory:\<close>) with a
  schedule of failing statements; it satisfies the contract.
\<close>

section \<open>Definitions\<close>

text \<open>A \<open>sea_orm::DbErr\<close>, by its \<open>Display\<close> text.\<close>

type_synonym DbErr = string

record 'd db_ops =
  db_insert :: "assignment list \<Rightarrow> 'd \<Rightarrow> (Model, DbErr) Result \<times> 'd"
  db_all :: "cond list \<Rightarrow> 'd \<Rightarrow> (Model list, DbErr) Result \<times> 'd"
  db_one :: "cond list \<Rightarrow> 'd \<Rightarrow> (Model option, DbErr) Result \<times> 'd"
  db_update_many :: "assignment list \<Rightarrow> cond list \<Rightarrow> 'd \<Rightarrow> (nat, DbErr) Result \<times> 'd"
  db_update :: "int \<Rightarrow> assignment list \<Rightarrow> 'd \<Rightarrow> (Model, DbErr) Result \<times> 'd"
  db_delete_many :: "cond list \<Rightarrow> 'd \<Rightarrow> (nat, DbErr) Result \<times> 'd"

definition update_rows :: "assignment list \<Rightarrow> cond list \<Rightarrow> Model list \<Rightarrow> Model list" where
  "update_rows as cs ms = map (\<lambda>m. if holds_all cs m then set_cols as m else m) ms"

definition matching :: "cond list \<Rightarrow> Model list \<Rightarrow> Model list" where
  "matching cs ms = filter (holds_all cs) ms"

definition delete_rows :: "cond list \<Rightarrow> Model list \<Rightarrow> Model list" where
  "delete_rows cs ms = filter (\<lambda>m. \<not> holds_all cs m) ms"

subsection \<open>An in-memory table\<close>

record mem =
  table :: "Model list"
  next_id :: int
  mem_now :: DateTimeUtc
  faults :: "bool list"

definition with_fault :: "(mem \<Rightarrow> ('a, DbErr) Result \<times> mem) \<Rightarrow> mem \<Rightarrow> ('a, DbErr) Result \<times> mem" where
  "with_fault f d =
     (case faults d of
        True # fs \<Rightarrow> (Err ''Connection Error: closed'', d\<lparr>faults := fs\<rparr>)
      | False # fs \<Rightarrow> f (d\<lparr>faults := fs\<rparr>)
      | [] \<Rightarrow> f d)"

text \<open>The key of the next row: never below a key in use.\<close>

definition fresh_id :: "mem \<Rightarrow> int" where
  "fresh_id d = fold max (map (\<lambda>m. app_id m + 1) (table d)) (next_id d)"

definition mem_insert :: "assignment list \<Rightarrow> mem \<Rightarrow> (Model, DbErr) Result \<times> mem" where
  "mem_insert as d =
     (let i = fresh_id d;
          m = set_cols (filter (\<lambda>a. fst a \<noteq> ColId) as) (blank_row i (mem_now d))
      in (Ok m, d\<lparr>table := table d @ [m], next_id := i + 1\<rparr>))"

definition mem_update_many ::
  "assignment list \<Rightarrow> cond list \<Rightarrow> mem \<Rightarrow> (nat, DbErr) Result \<times> mem" where
  "mem_update_many as cs d =
     (Ok (length (matching cs (table d))), d\<lparr>table := update_rows as cs (table d)\<rparr>)"

definition mem_update :: "int \<Rightarrow> assignment list \<Rightarrow> mem \<Rightarrow> (Model, DbErr) Result \<times> mem" where
  "mem_update i as d =
     (case matching [CEq ColId (VInt i)] (table d) of
        [] \<Rightarrow> (Err ''None of the records are updated'', d)
      | m # _ \<Rightarrow> (Ok (set_cols as m),
                  d\<lparr>table := update_rows as [CEq ColId (VInt i)] (table d)\<rparr>))"

definition mem_db :: "mem db_ops" where
  "mem_db = \<lparr>
     db_insert = (\<lambda>as. with_fault (mem_insert as)),
     db_all = (\<lambda>cs. with_fault (\<lambda>d. (Ok (matching cs (table d)), d))),
     db_one = (\<lambda>cs. with_fault (\<lambda>d. (Ok (List.find (holds_all cs) (table d)), d))),
     db_update_many = (\<lambda>as cs. with_fault (mem_update_many as cs)),
     db_update = (\<lambda>i as. with_fault (mem_update i as)),
     db_delete_many = (\<lambda>cs. with_fault (\<lambda>d.
       (Ok (length (matching cs (table d))), d\<lparr>table := delete_rows cs (table d)\<rparr>)))\<rparr>"

section \<open>The contract\<close>

locale app_store =
  fixes db :: "'d db_ops" and rows :: "'d \<Rightarrow> Model list"
  assumes insert_law: "db_insert db as d = (ri, d') \<Longrightarrow>
      (case ri of
         Ok m \<Rightarrow> rows d' = rows d @ [m] \<and>
           (\<exists>i t. i \<notin> app_id ` set (rows d) \<and>
                  m = set_cols (filter (\<lambda>a. fst a \<noteq> ColId) as) (blank_row i t))
       | Err _ \<Rightarrow> rows d' = rows d)"
    and all_law: "db_all db cs d = (ra, d') \<Longrightarrow>
      rows d' = rows d \<and> (\<forall>ms. ra = Ok ms \<longrightarrow> mset ms = mset (matching cs (rows d)))"
    and one_law: "db_one db cs d = (ro, d') \<Longrightarrow>
      rows d' = rows d \<and>
      (\<forall>mo. ro = Ok mo \<longrightarrow>
        (case mo of None \<Rightarrow> matching cs (rows d) = []
                  | Some m \<Rightarrow> m \<in> set (matching cs (rows d))))"
    and update_many_law: "db_update_many db as cs d = (rm, d') \<Longrightarrow>
      (case rm of
         Ok n \<Rightarrow> rows d' = update_rows as cs (rows d) \<and> n = length (matching cs (rows d))
       | Err _ \<Rightarrow> rows d' = rows d)"
    and update_law: "db_update db i as d = (ru, d') \<Longrightarrow>
      (case ru of
         Ok m \<Rightarrow> rows d' = update_rows as [CEq ColId (VInt i)] (rows d) \<and>
                m \<in> set_cols as ` set (matching [CEq ColId (VInt i)] (rows d))
       | Err _ \<Rightarrow> rows d' = rows d)"
    and delete_many_law: "db_delete_many db cs d = (rd, d') \<Longrightarrow>
      (case rd of
         Ok n \<Rightarrow> rows d' = delete_rows cs (rows d) \<and> n = length (matching cs (rows d))
       | Err _ \<Rightarrow> rows d' = rows d)"
begin

lemma insert_OkD:
  assumes "db_insert db as d = (Ok m, d')"
  shows "rows d' = rows d @ [m]"
    and "\<exists>i t. i \<notin> app_id ` set (rows d) \<and>
               m = set_cols (filter (\<lambda>a. fst a \<noteq> ColId) as) (blank_row i t)"
  using insert_law [OF assms] by auto

lemma insert_ErrD: "db_insert db as d = (Err e, d') \<Longrightarrow> rows d' = rows d"
  using insert_law by fastforce

lemma all_OkD:
  assumes "db_all db cs d = (Ok ms, d')"
  shows "rows d' = rows d" and "mset ms = mset (matching cs (rows d))"
    and "set ms = set (matching cs (rows d))"
  using all_law [OF assms] by (auto dest: mset_eq_setD)

lemma all_rows: "db_all db cs d = (r, d') \<Longrightarrow> rows d' = rows d"
  using all_law by blast

lemma one_rows: "db_one db cs d = (r, d') \<Longrightarrow> rows d' = rows d"
  using one_law by blast

lemma one_SomeD:
  assumes "db_one db cs d = (Ok (Some m), d')"
  shows "m \<in> set (rows d)" and "holds_all cs m"
  using one_law [OF assms] by (auto simp: matching_def)

lemma one_NoneD:
  assumes "db_one db cs d = (Ok None, d')" and "m \<in> set (rows d)"
  shows "\<not> holds_all cs m"
  using one_law [OF assms(1)] assms(2) by (auto simp: matching_def filter_empty_conv)

lemma update_many_OkD:
  assumes "db_update_many db as cs d = (Ok n, d')"
  shows "rows d' = update_rows as cs (rows d)" and "n = length (matching cs (rows d))"
  using update_many_law [OF assms] by auto

lemma update_many_ErrD: "db_update_many db as cs d = (Err e, d') \<Longrightarrow> rows d' = rows d"
  using update_many_law by fastforce

lemma update_OkD:
  assumes "db_update db i as d = (Ok m, d')"
  shows "rows d' = update_rows as [CEq ColId (VInt i)] (rows d)"
  using update_law [OF assms] by auto

lemma update_ErrD: "db_update db i as d = (Err e, d') \<Longrightarrow> rows d' = rows d"
  using update_law by fastforce

lemma delete_many_OkD:
  assumes "db_delete_many db cs d = (Ok n, d')"
  shows "rows d' = delete_rows cs (rows d)" and "n = length (matching cs (rows d))"
  using delete_many_law [OF assms] by auto

lemma delete_many_ErrD: "db_delete_many db cs d = (Err e, d') \<Longrightarrow> rows d' = rows d"
  using delete_many_law by fastforce

text \<open>Whatever the outcome, an update leaves the rows as they were or updates the matching ones.\<close>

lemma update_many_cases:
  assumes "db_update_many db as cs d = (r, d')"
  obtains (stmt_done) n where "r = Ok n" "rows d' = update_rows as cs (rows d)"
      "n = length (matching cs (rows d))"
    | (stmt_failed) e where "r = Err e" "rows d' = rows d"
  using update_many_law [OF assms] by (cases r) auto

end

section \<open>Lemmas on statements\<close>

lemma update_rows_simps [simp]:
  "update_rows as cs [] = []"
  "update_rows as cs (m # ms) =
     (if holds_all cs m then set_cols as m else m) # update_rows as cs ms"
  "update_rows as cs (ms @ ns) = update_rows as cs ms @ update_rows as cs ns"
  "length (update_rows as cs ms) = length ms"
  by (simp_all add: update_rows_def)

lemma matching_simps [simp]:
  "matching cs [] = []"
  "matching cs (m # ms) = (if holds_all cs m then m # matching cs ms else matching cs ms)"
  by (simp_all add: matching_def)

lemma set_matching [simp]: "set (matching cs ms) = {m \<in> set ms. holds_all cs m}"
  by (auto simp: matching_def)

lemma matching_empty_iff: "matching cs ms = [] \<longleftrightarrow> (\<forall>m \<in> set ms. \<not> holds_all cs m)"
  by (auto simp: matching_def filter_empty_conv)

lemma set_update_rows:
  "set (update_rows as cs ms) =
     (\<lambda>m. if holds_all cs m then set_cols as m else m) ` set ms"
  by (simp add: update_rows_def)

lemma identity_update_rows:
  "keeps_identity as \<Longrightarrow> map identity (update_rows as cs ms) = map identity ms"
  by (auto simp: update_rows_def identity_set_cols)

lemma update_rows_other:
  "m \<in> set ms \<Longrightarrow> \<not> holds_all cs m \<Longrightarrow> m \<in> set (update_rows as cs ms)"
  by (force simp: set_update_rows)

text \<open>Rows that the filter does not select are untouched, in place.\<close>

lemma filter_update_rows_other:
  assumes "\<And>m. holds_all cs m \<Longrightarrow> \<not> P m" and "\<And>m. holds_all cs m \<Longrightarrow> \<not> P (set_cols as m)"
  shows "filter P (update_rows as cs ms) = filter P ms"
  using assms by (induction ms) auto

text \<open>A statement that selects no row changes none.\<close>

lemma update_rows_none:
  "(\<And>m. m \<in> set ms \<Longrightarrow> \<not> holds_all cs m) \<Longrightarrow> update_rows as cs ms = ms"
  by (induction ms) auto

lemma update_rows_fresh:
  "i \<notin> app_id ` set ms \<Longrightarrow> update_rows as [CEq ColId (VInt i)] ms = ms"
  by (rule update_rows_none) auto

lemma identity_eqD:
  assumes "identity m = identity m'"
  shows "app_token m = app_token m'" "app_id m = app_id m'" "username m = username m'"
    "created_at m = created_at m'" "app_name m = app_name m'"
  using assms by (simp_all add: identity_def)

lemma update_rows_keeps:
  assumes "keeps_identity as"
  shows "map app_token (update_rows as cs ms) = map app_token ms"
    and "map app_id (update_rows as cs ms) = map app_id ms"
    and "map username (update_rows as cs ms) = map username ms"
  using identity_eqD [OF identity_set_cols [OF assms]] by (simp_all add: update_rows_def)

section \<open>The in-memory table satisfies the contract\<close>

lemma with_fault_cases:
  assumes "with_fault f d = (r, d')"
  obtains e fs where "r = Err e" "d' = d\<lparr>faults := fs\<rparr>"
    | fs where "f (d\<lparr>faults := fs\<rparr>) = (r, d')"
proof (cases "faults d")
  case Nil
  moreover have "d\<lparr>faults := faults d\<rparr> = d" by simp
  ultimately have "f (d\<lparr>faults := faults d\<rparr>) = (r, d')"
    using assms by (simp only: with_fault_def list.case)
  then show thesis by (rule that(2))
next
  case (Cons b fs)
  with assms that show thesis by (cases b) (auto simp: with_fault_def)
qed

lemma fold_max_ge: "(n::int) \<le> fold max xs n \<and> (\<forall>x \<in> set xs. x \<le> fold max xs n)"
proof (induction xs arbitrary: n)
  case (Cons x xs)
  from Cons [of "max x n"] show ?case by auto
qed simp

lemma fresh_id_fresh: "fresh_id d \<notin> app_id ` set (table d)"
proof
  assume "fresh_id d \<in> app_id ` set (table d)"
  then have "fresh_id d + 1 \<in> set (map (\<lambda>m. app_id m + 1) (table d))" by auto
  then have "fresh_id d + 1 \<le> fresh_id d"
    unfolding fresh_id_def by (metis fold_max_ge)
  then show False by simp
qed

interpretation mem: app_store mem_db table
proof (unfold_locales, goal_cases)
  case (1 as d r d')
  then have "with_fault (mem_insert as) d = (r, d')" by (simp add: mem_db_def)
  then show ?case
  proof (cases rule: with_fault_cases)
    case (2 fs)
    then show ?thesis
      using fresh_id_fresh [of "d\<lparr>faults := fs\<rparr>"]
      by (auto simp: mem_insert_def Let_def) blast
  qed auto
next
  case (2 cs d r d')
  then have "with_fault (\<lambda>d. (Ok (matching cs (table d)), d)) d = (r, d')"
    by (simp add: mem_db_def)
  then show ?case by (cases rule: with_fault_cases) auto
next
  case (3 cs d r d')
  then have "with_fault (\<lambda>d. (Ok (List.find (holds_all cs) (table d)), d)) d = (r, d')"
    by (simp add: mem_db_def)
  then show ?case
    by (cases rule: with_fault_cases)
      (auto simp: matching_empty_iff find_None_iff find_Some_iff split: option.splits)
next
  case (4 as cs d r d')
  then have "with_fault (mem_update_many as cs) d = (r, d')" by (simp add: mem_db_def)
  then show ?case by (cases rule: with_fault_cases) (auto simp: mem_update_many_def)
next
  case (5 i as d r d')
  then have "with_fault (mem_update i as) d = (r, d')" by (simp add: mem_db_def)
  then show ?case
  proof (cases rule: with_fault_cases)
    case (2 fs)
    then show ?thesis
      by (cases "matching [CEq ColId (VInt i)] (table d)")
        (auto simp: mem_update_def simp del: set_matching)
  qed auto
next
  case (6 cs d r d')
  then have "with_fault (\<lambda>d. (Ok (length (matching cs (table d))),
      d\<lparr>table := delete_rows cs (table d)\<rparr>)) d = (r, d')"
    by (simp add: mem_db_def)
  then show ?case by (cases rule: with_fault_cases) auto
qed

end
