(* ===== verification/Proxy_Error.thy ===== *)
theory Proxy_Error
  imports Application_Entity
begin

text \<open>
  The proxy's error type and its \<open>Display\<close> (\<open>server/src/error.rs\<close>), the gRPC error response built
  from it and the percent encoding of the message (\<open>proxy_error_response\<close> and
  \<open>percent_encode_grpc_message\<close> of \<open>server/src/proxy.rs\<close>). Errors of libraries are carried by
  their \<open>Display\<close> text. \<open>HeaderValue::from_str\<close> of the \<open>http\<close> crate is an argument.
\<close>

section \<open>Definitions\<close>

datatype Error =
    Authorization string
  | MissingAuthorizationHeader
  | InvalidAuthorizationHeader string
  | InvalidAuthorizationScheme
  | InvalidAuthorizationToken
  | ApplicationNotFound
  | MissingApplicationAddress
  | InvalidApplicationState State
  | Database string
  | UpstreamConnect string
  | UpstreamHandshake string
  | InvalidUpstreamUri string
  | UpstreamRequest string
  | Internal string

fun display_error :: "Error \<Rightarrow> string" where
  "display_error (Authorization s) = ''authorization error: '' @ s"
| "display_error MissingAuthorizationHeader = ''missing authorization header''"
| "display_error (InvalidAuthorizationHeader s) = ''invalid authorization header: '' @ s"
| "display_error InvalidAuthorizationScheme = ''unsupported authorization scheme''"
| "display_error InvalidAuthorizationToken = ''invalid authorization token''"
| "display_error ApplicationNotFound = ''application not found for provided token''"
| "display_error MissingApplicationAddress = ''application has no upstream address''"
| "display_error (InvalidApplicationState st) =
     ''application is not ready for proxying: '' @ to_value st"
| "display_error (Database s) = ''database error: '' @ s"
| "display_error (UpstreamConnect s) = ''failed to connect to upstream: '' @ s"
| "display_error (UpstreamHandshake s) = ''failed to establish upstream HTTP/2 session: '' @ s"
| "display_error (InvalidUpstreamUri s) = ''invalid upstream URI: '' @ s"
| "display_error (UpstreamRequest s) = ''upstream request failed: '' @ s"
| "display_error (Internal s) = ''internal error: '' @ s"

record Response =
  status :: nat
  resp_headers :: "(string \<times> string) list"
  body :: string

definition printable :: "char \<Rightarrow> bool" where
  "printable b \<longleftrightarrow> 32 \<le> (of_char b :: nat) \<and> (of_char b :: nat) \<le> 126"

definition encode_byte :: "char \<Rightarrow> string" where
  "encode_byte b = (if printable b \<and> b \<noteq> CHR ''%'' then [b] else CHR ''%'' # hex02 b)"

fun percent_encode_grpc_message :: "string \<Rightarrow> string" where
  "percent_encode_grpc_message [] = []"
| "percent_encode_grpc_message (b # bs) = encode_byte b @ percent_encode_grpc_message bs"

fun grpc_status :: "Error \<Rightarrow> string" where
  "grpc_status MissingAuthorizationHeader = ''16''"
| "grpc_status (InvalidAuthorizationHeader _) = ''16''"
| "grpc_status InvalidAuthorizationScheme = ''16''"
| "grpc_status InvalidAuthorizationToken = ''16''"
| "grpc_status ApplicationNotFound = ''5''"
| "grpc_status MissingApplicationAddress = ''14''"
| "grpc_status (InvalidApplicationState LAUNCHING) = ''14''"
| "grpc_status (InvalidApplicationState _) = ''9''"
| "grpc_status (Database _) = ''13''"
| "grpc_status (UpstreamConnect _) = ''14''"
| "grpc_status (UpstreamHandshake _) = ''14''"
| "grpc_status (InvalidUpstreamUri _) = ''13''"
| "grpc_status (UpstreamRequest _) = ''14''"
| "grpc_status (Authorization _) = ''16''"
| "grpc_status (Internal _) = ''13''"

definition proxy_error_response ::
  "(string \<Rightarrow> (string, string) Result) \<Rightarrow> Error \<Rightarrow> Response" where
  "proxy_error_response from_str error =
     (let grpc_message = percent_encode_grpc_message (display_error error)
      in \<lparr>status = 200,
          resp_headers =
            [(''content-type'', ''application/grpc''),
             (''grpc-status'', grpc_status error),
             (''grpc-message'',
                case from_str grpc_message of Ok v \<Rightarrow> v | Err _ \<Rightarrow> ''proxy%20error'')],
          body = []\<rparr>)"

subsection \<open>The reader's side\<close>

text \<open>Percent decoding as the gRPC protocol describes it for \<open>grpc-message\<close>: a \<open>%\<close> with two
  hexadecimal digits is a byte, everything else stands for itself.\<close>

definition hex_val :: "char \<Rightarrow> nat option" where
  "hex_val c =
     (let n = of_char c :: nat in
      if 48 \<le> n \<and> n \<le> 57 then Some (n - 48)
      else if 65 \<le> n \<and> n \<le> 70 then Some (n - 55)
      else if 97 \<le> n \<and> n \<le> 102 then Some (n - 87)
      else None)"

fun percent_decode :: "string \<Rightarrow> string" where
  "percent_decode (a # h # l # s) =
     (if a = CHR ''%'' then
        (case (hex_val h, hex_val l) of
           (Some x, Some y) \<Rightarrow> char_of (16 * x + y) # percent_decode s
         | _ \<Rightarrow> a # percent_decode (h # l # s))
      else a # percent_decode (h # l # s))"
| "percent_decode s = s"

text \<open>What the \<open>http\<close> crate documents of \<open>HeaderValue::from_str\<close>: visible ASCII is accepted
  as it is.\<close>

definition accepts_visible_ascii :: "(string \<Rightarrow> (string, string) Result) \<Rightarrow> bool" where
  "accepts_visible_ascii from_str \<longleftrightarrow>
     (\<forall>s. (\<forall>c \<in> set s. printable c) \<longrightarrow> from_str s = Ok s)"

section \<open>Lemmas\<close>

lemma hex_val_hex_upper: "d < 16 \<Longrightarrow> hex_val (hex_upper d) = Some d"
  by (auto simp: hex_val_def hex_upper_def Let_def)

lemma printable_hex_upper: "d < 16 \<Longrightarrow> printable (hex_upper d)"
  by (auto simp: printable_def hex_upper_def)

lemma nibble_less: "of_char (b::char) div 16 < (16::nat)" "of_char b mod 16 < (16::nat)"
  by (rule less_mult_imp_div_less) simp_all

lemma hex02_decode: "char_of (16 * (of_char b div 16) + of_char b mod 16 :: nat) = b"
  by simp

lemma percent_decode_Cons:
  "a \<noteq> CHR ''%'' \<Longrightarrow> percent_decode (a # s) = a # percent_decode s"
  by (cases s rule: percent_decode.cases) auto

lemma percent_decode_byte:
  "percent_decode (encode_byte b @ s) = b # percent_decode s"
proof (cases "printable b \<and> b \<noteq> CHR ''%''")
  case True
  then show ?thesis by (simp add: encode_byte_def percent_decode_Cons)
next
  case False
  then have "encode_byte b = CHR ''%'' # hex02 b" by (auto simp: encode_byte_def)
  with nibble_less [of b] show ?thesis
    by (simp add: hex02_def hex_val_hex_upper hex02_decode)
qed

lemma printable_encode_byte: "c \<in> set (encode_byte b) \<Longrightarrow> printable c"
proof -
  have "printable (CHR ''%'')" by (simp add: printable_def)
  with nibble_less [of b] show "c \<in> set (encode_byte b) \<Longrightarrow> printable c"
    by (auto simp: encode_byte_def hex02_def printable_hex_upper split: if_splits)
qed

lemma percent_encode_printable:
  "\<forall>c \<in> set (percent_encode_grpc_message s). printable c"
  by (induction s) (auto intro: printable_encode_byte)

lemma percent_decode_encode: "percent_decode (percent_encode_grpc_message s) = s"
  by (induction s) (simp_all add: percent_decode_byte)

lemma percent_encode_id: "\<forall>c \<in> set s. printable c \<and> c \<noteq> CHR ''%'' \<Longrightarrow>
  percent_encode_grpc_message s = s"
  by (induction s) (auto simp: encode_byte_def)

section \<open>Properties\<close>

text \<open>The percent encoding of a gRPC message loses nothing (a reader that decodes it as the
  gRPC protocol prescribes gets the message back, byte for byte) and yields printable ASCII only.\<close>

lemma percent_encode_roundtrip:
  "percent_decode (percent_encode_grpc_message msg) = msg \<and>
   set (percent_encode_grpc_message msg) \<subseteq> Collect printable"
  using percent_encode_printable by (auto simp: percent_decode_encode)

text \<open>C31: with a \<open>HeaderValue::from_str\<close> that accepts visible ASCII, the error response is always
  HTTP 200 with content type \<open>application/grpc\<close> and an empty body, carries a gRPC status that
  depends on the error as documented, and its \<open>grpc-message\<close> header decodes to the full \<open>Display\<close>
  text of the error: the fallback text is never used.\<close>

theorem proxy_error_response_faithful:
  assumes "accepts_visible_ascii from_str"
    and "r = proxy_error_response from_str e"
  shows "status r = 200 \<and> body r = [] \<and>
     hm_get (resp_headers r) ''content-type'' = Some ''application/grpc'' \<and>
     hm_get (resp_headers r) ''grpc-status'' = Some (grpc_status e) \<and>
     map_option percent_decode (hm_get (resp_headers r) ''grpc-message'') = Some (display_error e)"
proof -
  have "from_str (percent_encode_grpc_message (display_error e)) =
      Ok (percent_encode_grpc_message (display_error e))"
    using assms(1) percent_encode_printable unfolding accepts_visible_ascii_def by blast
  then show ?thesis
    by (simp add: assms(2) proxy_error_response_def Let_def hm_get_def percent_decode_encode)
qed

theorem proxy_error_response_faithful_witness:
  "accepts_visible_ascii (\<lambda>s. if \<forall>c \<in> set s. printable c then Ok s else Err s) \<and>
   map_option percent_decode (hm_get (resp_headers (proxy_error_response
     (\<lambda>s. if \<forall>c \<in> set s. printable c then Ok s else Err s)
     (UpstreamRequest ''bad%state''))) ''grpc-message'')
     = Some ''upstream request failed: bad%state''"
proof -
  have h: "accepts_visible_ascii (\<lambda>s. if \<forall>c \<in> set s. printable c then Ok s else Err s)"
    by (simp add: accepts_visible_ascii_def)
  show ?thesis
    using h proxy_error_response_faithful [OF h refl, of "UpstreamRequest ''bad%state''"] by simp
qed

end
