(* ===== verification/Auth.thy ===== *)
theory Auth
  imports Proxy_Config
begin

text \<open>
  Authentication (\<open>server/src/auth.rs\<close>): the four user authentication methods, building them from
  the configuration, the user layer that tries them in order, and the token layer of the callback
  routes. The \<open>http\<close> header map is a lookup function: for a header name it gives nothing, or the
  result of \<open>HeaderValue::to_str\<close>. \<open>whoami\<close>, \<open>jsonwebtoken\<close>, \<open>jwks\<close> and reading the PEM file are
  arguments, collected in the record \<open>auth_ops\<close>; keys and algorithms stay abstract.
\<close>

section \<open>Definitions\<close>

type_synonym HeaderMap = "string \<Rightarrow> (string, string) Result option"

type_synonym StatusCode = nat

definition BAD_REQUEST :: StatusCode where "BAD_REQUEST = 400"
definition UNAUTHORIZED :: StatusCode where "UNAUTHORIZED = 401"
definition NOT_FOUND :: StatusCode where "NOT_FOUND = 404"
definition INTERNAL_SERVER_ERROR :: StatusCode where "INTERNAL_SERVER_ERROR = 500"

lemmas status_codes = BAD_REQUEST_def UNAUTHORIZED_def NOT_FOUND_def INTERNAL_SERVER_ERROR_def

definition auth_extract_bearer_token :: "HeaderMap \<Rightarrow> (string option, string) Result" where
  "auth_extract_bearer_token header_map =
     (case header_map ''Authorization'' of
        None \<Rightarrow> Ok None
      | Some (Err e) \<Rightarrow> Err e
      | Some (Ok h) \<Rightarrow> Ok (if starts_with h ''Bearer '' then Some (drop 7 h) else None))"

text \<open>\<open>Validation::new(alg)\<close>, with the audience when one was set.\<close>

record 'alg Validation =
  algorithm :: 'alg
  audience :: "string option"

datatype ('key, 'alg) UserAuthMethod =
    CurrentUserAuth
  | RemoteUserAuth string
  | JWTAuth 'key "'alg Validation"
  | JWKSAuth "(string \<times> 'key) list" "string option"

record ('key, 'alg) auth_ops =
  whoami_username :: "(string, string) Result"
  jwt_decode :: "string \<Rightarrow> 'key \<Rightarrow> 'alg Validation \<Rightarrow> (string, string) Result"
  jwt_decode_header :: "string \<Rightarrow> ('alg \<times> string option, string) Result"
  read_to_string :: "string \<Rightarrow> (string, string) Result"
  from_pem :: "string \<Rightarrow> string \<Rightarrow> ('key, string) Result"
  algorithm_from_str :: "string \<Rightarrow> ('alg, string) Result"
  alg_RS256 :: 'alg
  from_jwks_url :: "string \<Rightarrow> ((string \<times> 'key) list, string) Result"
  from_oidc_url :: "string \<Rightarrow> ((string \<times> 'key) list, string) Result"

definition CurrentUserAuth_authorize ::
  "('key, 'alg) auth_ops \<Rightarrow> (string option, string) Result" where
  "CurrentUserAuth_authorize ops = and_then (whoami_username ops) (\<lambda>u. Ok (Some u))"

definition RemoteUserAuth_authorize :: "string \<Rightarrow> HeaderMap \<Rightarrow> (string option, string) Result" where
  "RemoteUserAuth_authorize header header_map =
     Ok (case header_map header of Some (Ok v) \<Rightarrow> Some v | _ \<Rightarrow> None)"

definition JWTAuth_authorize ::
  "('key, 'alg) auth_ops \<Rightarrow> 'key \<Rightarrow> 'alg Validation \<Rightarrow> HeaderMap \<Rightarrow> (string option, string) Result" where
  "JWTAuth_authorize ops key validation header_map =
     and_then (auth_extract_bearer_token header_map) (\<lambda>t.
       case t of
         None \<Rightarrow> Ok None
       | Some token \<Rightarrow> and_then (jwt_decode ops token key validation) (\<lambda>sub. Ok (Some sub)))"

definition JWKSAuth_authorize ::
  "('key, 'alg) auth_ops \<Rightarrow> (string \<times> 'key) list \<Rightarrow> string option \<Rightarrow> HeaderMap \<Rightarrow> (string option, string) Result" where
  "JWKSAuth_authorize ops keys aud header_map =
     and_then (auth_extract_bearer_token header_map) (\<lambda>t.
       case t of
         None \<Rightarrow> Ok None
       | Some token \<Rightarrow>
           and_then (jwt_decode_header ops token) (\<lambda>(alg, kid).
           and_then (ok_or kid ''authorization error: jwt header should have a kid'') (\<lambda>kid.
           and_then (ok_or (hm_get keys kid) ''authorization error: jwt refer to a unknown key id'')
             (\<lambda>key.
               let validation = \<lparr>algorithm = alg, audience = None\<rparr>;
                   validation = (case aud of None \<Rightarrow> validation
                                           | Some a \<Rightarrow> validation\<lparr>audience := Some a\<rparr>)
               in and_then (jwt_decode ops token key validation) (\<lambda>sub. Ok (Some sub))))))"

text \<open>Calling the trait method on a method of any kind.\<close>

fun authorize_user ::
  "('key, 'alg) auth_ops \<Rightarrow> ('key, 'alg) UserAuthMethod \<Rightarrow> HeaderMap \<Rightarrow> (string option, string) Result"
where
  "authorize_user ops CurrentUserAuth header_map = CurrentUserAuth_authorize ops"
| "authorize_user ops (RemoteUserAuth header) header_map = RemoteUserAuth_authorize header header_map"
| "authorize_user ops (JWTAuth key validation) header_map = JWTAuth_authorize ops key validation header_map"
| "authorize_user ops (JWKSAuth keys aud) header_map = JWKSAuth_authorize ops keys aud header_map"

lemmas authorize_defs = CurrentUserAuth_authorize_def RemoteUserAuth_authorize_def JWTAuth_authorize_def
  JWKSAuth_authorize_def

definition RemoteUserAuth_create ::
  "HashMap \<Rightarrow> (('key, 'alg) UserAuthMethod, panic) Result" where
  "RemoteUserAuth_create options =
     (case hm_get options ''header'' of
        None \<Rightarrow> Err (Panic ''header option must be set for remote_user authentication'')
      | Some header \<Rightarrow> Ok (RemoteUserAuth header))"

definition JWTAuth_create ::
  "('key, 'alg) auth_ops \<Rightarrow> HashMap \<Rightarrow> (('key, 'alg) UserAuthMethod, panic) Result" where
  "JWTAuth_create ops options =
     and_then
       (case (hm_get options ''pem'', hm_get options ''pem_file'') of
          (Some _, Some _) \<Rightarrow> Err (Panic ''pem and pem_file cannot both be defined'')
        | (Some pem, None) \<Rightarrow> Ok pem
        | (None, Some f) \<Rightarrow> map_err Panic (read_to_string ops f)
        | (None, None) \<Rightarrow> Err (Panic ''One of pem or pem_file must be defined for JWT auth''))
       (\<lambda>pem_content.
     and_then
       (let t = unwrap_or (hm_get options ''pem_type'') ''rsa''
        in if t = ''rsa'' \<or> t = ''ec'' \<or> t = ''ed'' then map_err Panic (from_pem ops t pem_content)
           else Err (Panic (''Unknown PEM type '' @ t)))
       (\<lambda>key.
     and_then
       (case hm_get options ''algorithm'' of
          Some alg \<Rightarrow> map_err Panic (algorithm_from_str ops alg)
        | None \<Rightarrow> Ok (alg_RS256 ops))
       (\<lambda>alg. Ok (JWTAuth key \<lparr>algorithm = alg, audience = None\<rparr>))))"

definition JWKSAuth_create ::
  "('key, 'alg) auth_ops \<Rightarrow> HashMap \<Rightarrow> (('key, 'alg) UserAuthMethod, panic) Result" where
  "JWKSAuth_create ops options =
     and_then
       (case (hm_get options ''jwks_url'', hm_get options ''oidc_url'') of
          (Some _, Some _) \<Rightarrow> Err (Panic ''JWKS and OIDC URL cannot both be specified'')
        | (Some jwks_url, None) \<Rightarrow> map_err Panic (from_jwks_url ops jwks_url)
        | (None, Some oidc_url) \<Rightarrow> map_err Panic (from_oidc_url ops oidc_url)
        | (None, None) \<Rightarrow> Err (Panic ''Either jwks_url or oidc_url must be provided''))
       (\<lambda>jwks. Ok (JWKSAuth jwks (hm_get options ''audience'')))"

definition create_method ::
  "('key, 'alg) auth_ops \<Rightarrow> AuthConfig \<Rightarrow> (('key, 'alg) UserAuthMethod, panic) Result" where
  "create_method ops auth_config =
     (let auth_options = unwrap_or (auth_options auth_config) []
      in if auth_name auth_config = ''remote_user'' then RemoteUserAuth_create auth_options
         else if auth_name auth_config = ''jwt'' then JWTAuth_create ops auth_options
         else if auth_name auth_config = ''jwks'' then JWKSAuth_create ops auth_options
         else Err (Panic (''Unknown authentication method: '' @ auth_name auth_config)))"

fun create_methods ::
  "('key, 'alg) auth_ops \<Rightarrow> AuthConfig list \<Rightarrow> (('key, 'alg) UserAuthMethod list, panic) Result"
where
  "create_methods ops [] = Ok []"
| "create_methods ops (a # as) =
     and_then (create_method ops a) (\<lambda>m. and_then (create_methods ops as) (\<lambda>ms. Ok (m # ms)))"

definition UserAuth_from_config ::
  "('key, 'alg) auth_ops \<Rightarrow> ProxyConfig \<Rightarrow> (('key, 'alg) UserAuthMethod list, panic) Result" where
  "UserAuth_from_config ops config =
     (case auth_methods config of
        Some auth_configs \<Rightarrow> create_methods ops auth_configs
      | None \<Rightarrow> Ok [CurrentUserAuth])"

text \<open>The loop of \<open>UserAuth::authorize\<close>: the first method that names a user ends it; an error is
  logged and the next method is tried.\<close>

fun first_user ::
  "('key, 'alg) auth_ops \<Rightarrow> ('key, 'alg) UserAuthMethod list \<Rightarrow> HeaderMap \<Rightarrow> string option" where
  "first_user ops [] headers = None"
| "first_user ops (m # ms) headers =
     (case authorize_user ops m headers of
        Ok (Some user) \<Rightarrow> Some user
      | Err e \<Rightarrow> first_user ops ms headers
      | Ok None \<Rightarrow> first_user ops ms headers)"

definition UserAuth_authorize ::
  "('key, 'alg) auth_ops \<Rightarrow> ('key, 'alg) UserAuthMethod list \<Rightarrow> HeaderMap
   \<Rightarrow> (string, StatusCode) Result" where
  "UserAuth_authorize ops methods headers =
     (case first_user ops methods headers of
        Some u \<Rightarrow> Ok u
      | None \<Rightarrow> Err UNAUTHORIZED)"

definition TokenAuth_authorize :: "HeaderMap \<Rightarrow> (string, StatusCode) Result" where
  "TokenAuth_authorize headers =
     (case headers ''authorization'' of
        None \<Rightarrow> Err UNAUTHORIZED
      | Some (Err _) \<Rightarrow> Err BAD_REQUEST
      | Some (Ok authorization) \<Rightarrow>
          (case split_once (CHR '' '') authorization of
             Some (scheme, token) \<Rightarrow> if scheme = ''Bearer'' then Ok token else Err UNAUTHORIZED
           | None \<Rightarrow> Err UNAUTHORIZED))"

subsection \<open>A header map from the headers of a request\<close>

definition to_lower :: "char \<Rightarrow> char" where
  "to_lower c = (let n = of_char c :: nat in if 65 \<le> n \<and> n \<le> 90 then char_of (n + 32) else c)"

definition visible_ascii :: "char \<Rightarrow> bool" where
  "visible_ascii c \<longleftrightarrow> (let n = of_char c :: nat in (32 \<le> n \<and> n < 127) \<or> n = 9)"

definition header_map_of :: "(string \<times> string) list \<Rightarrow> HeaderMap" where
  "header_map_of hs name =
     (case List.find (\<lambda>(n, v). map to_lower n = map to_lower name) hs of
        None \<Rightarrow> None
      | Some (n, v) \<Rightarrow>
          Some (if list_all visible_ascii v then Ok v
                else Err ''failed to convert header to a str''))"

section \<open>Header lookup is case insensitive\<close>

lemma bearer_Ok_iff:
  "(case split_once (CHR '' '') v of
      Some (scheme, token) \<Rightarrow> if scheme = ''Bearer'' then Ok token else Err e
    | None \<Rightarrow> Err e) = Ok t \<longleftrightarrow> v = ''Bearer '' @ t"
  (is "?l \<longleftrightarrow> ?r")
proof -
  have "split_once (CHR '' '') v = Some (''Bearer'', t) \<longleftrightarrow> ?r"
    using split_once_Some_iff [of "CHR '' ''" v "''Bearer''" t] by simp
  moreover have "?l \<longleftrightarrow> split_once (CHR '' '') v = Some (''Bearer'', t)"
    by (cases "split_once (CHR '' '') v") (auto split: if_splits)
  ultimately show ?thesis by blast
qed

text \<open>What the server relies on of the \<open>http\<close> crate: names that differ in case only are the same
  header. The three readers of the bearer token name the header in two ways.\<close>

locale header_map =
  fixes h :: HeaderMap
  assumes case_insensitive: "map to_lower a = map to_lower b \<Longrightarrow> h a = h b"
begin

lemma authorization_name: "h ''Authorization'' = h ''authorization''"
  by (rule case_insensitive) code_simp

lemma TokenAuth_Ok_iff:
  "TokenAuth_authorize h = Ok t \<longleftrightarrow> h ''Authorization'' = Some (Ok (''Bearer '' @ t))"
proof (cases "h ''authorization''")
  case None
  then show ?thesis by (simp add: TokenAuth_authorize_def authorization_name)
next
  case (Some r)
  then show ?thesis
    by (cases r) (simp_all add: TokenAuth_authorize_def authorization_name bearer_Ok_iff
        del: append.simps)
qed

lemma auth_extract_Some_iff:
  "auth_extract_bearer_token h = Ok (Some t) \<longleftrightarrow> h ''Authorization'' = Some (Ok (''Bearer '' @ t))"
  by (auto simp: auth_extract_bearer_token_def starts_with_iff split: option.splits Result.splits)

end

interpretation hdrs: header_map "header_map_of hs"
  by unfold_locales (simp add: header_map_of_def)

section \<open>Lemmas\<close>

lemma first_user_Some_iff:
  "first_user ops ms h = Some u \<longleftrightarrow>
     (\<exists>pre m post. ms = pre @ m # post \<and> authorize_user ops m h = Ok (Some u) \<and>
        (\<forall>p \<in> set pre. \<forall>v. authorize_user ops p h \<noteq> Ok (Some v)))"
proof (induction ms)
  case (Cons m ms)
  show ?case
  proof (cases "\<exists>v. authorize_user ops m h = Ok (Some v)")
    case True
    then show ?thesis
      by (auto simp: Cons_eq_append_conv intro: exI [of _ "[]"])
  next
    case False
    then have step: "first_user ops (m # ms) h = first_user ops ms h"
      by (auto split: Result.splits option.splits)
    have "(\<exists>pre n post. m # ms = pre @ n # post \<and> authorize_user ops n h = Ok (Some u) \<and>
        (\<forall>p \<in> set pre. \<forall>v. authorize_user ops p h \<noteq> Ok (Some v))) \<longleftrightarrow>
      (\<exists>pre n post. ms = pre @ n # post \<and> authorize_user ops n h = Ok (Some u) \<and>
        (\<forall>p \<in> set pre. \<forall>v. authorize_user ops p h \<noteq> Ok (Some v)))"
      using False by (auto simp: Cons_eq_append_conv) (metis list.set_intros(2) set_ConsD)+
    with Cons.IH step show ?thesis by simp
  qed
qed simp

lemma first_user_None_iff:
  "first_user ops ms h = None \<longleftrightarrow> (\<forall>m \<in> set ms. \<forall>v. authorize_user ops m h \<noteq> Ok (Some v))"
  by (induction ms) (auto split: Result.splits option.splits)

lemma UserAuth_authorize_iff:
  "UserAuth_authorize ops ms h = Ok u \<longleftrightarrow> first_user ops ms h = Some u"
  "UserAuth_authorize ops ms h = Err UNAUTHORIZED \<longleftrightarrow> first_user ops ms h = None"
  by (simp_all add: UserAuth_authorize_def split: option.splits)

lemma create_method_not_current:
  "create_method ops a = Ok m \<Longrightarrow> m \<noteq> CurrentUserAuth"
  by (auto simp: create_method_def RemoteUserAuth_create_def JWTAuth_create_def JWKSAuth_create_def
      Let_def split: if_splits option.splits)

lemma create_methods_Ok:
  "create_methods ops as = Ok ms \<Longrightarrow> length ms = length as \<and> CurrentUserAuth \<notin> set ms"
  by (induction as arbitrary: ms) (use create_method_not_current in fastforce)+

lemma authorize_user_no_headers:
  "m \<noteq> CurrentUserAuth \<Longrightarrow> authorize_user ops m (\<lambda>_. None) = Ok None"
  by (cases m) (simp_all add: auth_extract_bearer_token_def authorize_defs)

section \<open>Properties\<close>

text \<open>A request is authenticated as user \<open>u\<close> exactly when some configured method names \<open>u\<close> and
  no method before it names anybody (methods that fail are skipped); otherwise the answer is
  401.\<close>

lemma UserAuth_first_success:
  "(UserAuth_authorize ops ms h = Ok u \<longleftrightarrow>
      (\<exists>pre m post. ms = pre @ m # post \<and> authorize_user ops m h = Ok (Some u) \<and>
         list_all (\<lambda>p. \<forall>v. authorize_user ops p h \<noteq> Ok (Some v)) pre)) \<and>
   (UserAuth_authorize ops ms h = Err UNAUTHORIZED \<longleftrightarrow>
      list_all (\<lambda>m. \<forall>v. authorize_user ops m h \<noteq> Ok (Some v)) ms)"
  by (simp only: UserAuth_authorize_iff first_user_Some_iff first_user_None_iff list_all_iff)

text \<open>C32: when \<open>auth_methods\<close> is configured (even with an empty list), a request that carries no
  headers is rejected with 401: the permissive default that trusts every caller as the server's
  own user is only installed when nothing is configured.\<close>

theorem configured_auth_rejects_anonymous:
  assumes "auth_methods c = Some as" and "UserAuth_from_config ops c = Ok ms"
  shows "UserAuth_authorize ops ms (\<lambda>_. None) = Err UNAUTHORIZED \<and> length ms = length as"
proof -
  have ms: "length ms = length as" "CurrentUserAuth \<notin> set ms"
    using assms create_methods_Ok by (auto simp: UserAuth_from_config_def)
  then have "first_user ops ms (\<lambda>_. None) = None"
    by (metis authorize_user_no_headers first_user_None_iff option.distinct(1) Result.inject(1))
  with ms show ?thesis by (simp add: UserAuth_authorize_def)
qed

definition demo_auth_ops :: "(string, string) auth_ops" where
  "demo_auth_ops = \<lparr>whoami_username = Ok ''spark'',
     jwt_decode = (\<lambda>t k v. if t = ''good'' then Ok ''alice'' else Err ''bad''),
     jwt_decode_header = (\<lambda>t. Ok (''RS256'', Some ''k1'')),
     read_to_string = (\<lambda>f. Err ''no such file''),
     from_pem = (\<lambda>k c. Ok c), algorithm_from_str = Ok, alg_RS256 = ''RS256'',
     from_jwks_url = (\<lambda>u. Ok [(''k1'', ''key'')]), from_oidc_url = (\<lambda>u. Ok [(''k1'', ''key'')])\<rparr>"

definition demo_auth_config :: ProxyConfig where
  "demo_auth_config = ProxyConfig_default\<lparr>auth_methods := Some
     [\<lparr>auth_name = ''remote_user'', auth_options = Some [(''header'', ''REMOTE_USER'')]\<rparr>]\<rparr>"

theorem configured_auth_rejects_anonymous_witness:
  "UserAuth_from_config demo_auth_ops demo_auth_config = Ok [RemoteUserAuth ''REMOTE_USER''] \<and>
   UserAuth_authorize demo_auth_ops [RemoteUserAuth ''REMOTE_USER''] (\<lambda>_. None) = Err 401"
proof -
  have c: "auth_methods demo_auth_config = Some
      [\<lparr>auth_name = ''remote_user'', auth_options = Some [(''header'', ''REMOTE_USER'')]\<rparr>]"
    by (simp add: demo_auth_config_def)
  have r: "UserAuth_from_config demo_auth_ops demo_auth_config = Ok [RemoteUserAuth ''REMOTE_USER'']"
    by (simp add: UserAuth_from_config_def c create_method_def RemoteUserAuth_create_def hm_get_def)
  show ?thesis
    using r configured_auth_rejects_anonymous [OF c r] by (simp add: status_codes)
qed

text \<open>The JWKS method names user \<open>u\<close> exactly for a bearer token whose header names a key id of
  the key set and whose signature check, under that very key, the header's algorithm and the
  configured audience, yields the subject \<open>u\<close>.\<close>

lemma JWKS_accepts_iff:
  "authorize_user ops (JWKSAuth keys aud) h = Ok (Some u) \<longleftrightarrow>
     (\<exists>token alg kid key.
        h ''Authorization'' = Some (Ok (''Bearer '' @ token)) \<and>
        jwt_decode_header ops token = Ok (alg, Some kid) \<and>
        hm_get keys kid = Some key \<and>
        jwt_decode ops token key \<lparr>algorithm = alg, audience = aud\<rparr> = Ok u)"
  (is "?l \<longleftrightarrow> (\<exists>token alg kid key. ?P token \<and> ?Q token alg kid key)")
proof -
  have ext: "auth_extract_bearer_token h = Ok (Some token) \<longleftrightarrow> ?P token" for token
    by (auto simp: auth_extract_bearer_token_def starts_with_iff
        split: option.splits Result.splits)
  have "?l \<longleftrightarrow> (\<exists>token alg kid key. auth_extract_bearer_token h = Ok (Some token) \<and>
      ?Q token alg kid key)"
    by (cases aud) (auto simp: JWKSAuth_authorize_def Let_def split: option.splits)
  then show ?thesis by (simp only: ext)
qed

end
