(* ===== verification/Upstream.thy ===== *)
theory Upstream
  imports App_Store Proxy_Error Auth
begin

text \<open>
  The Spark Connect proxy (\<open>server/src/proxy.rs\<close>): reading the bearer token, the process-wide
  cache of dispatchers, dispatching a request, finding and connecting to the upstream of a token,
  and the dispatcher task that forwards requests. Channels and tasks of \<open>tokio\<close>, HTTP/2
  connections of \<open>hyper\<close> and the HTTP client \<open>reqwest\<close> are records of functions over an abstract
  network state. What happens while a task sleeps is the argument \<open>sleep\<close>: it may change the
  database and the network in any way.
\<close>

section \<open>Definitions\<close>

subsection \<open>Requests and tokens\<close>

text \<open>A request: \<open>req_path\<close> and \<open>path_and_query\<close> are the parts of its URI as it was received,
  \<open>req_uri\<close> is the URI it is sent with.\<close>

record Request =
  req_headers :: HeaderMap
  req_path :: string
  path_and_query :: "string option"
  req_uri :: string

definition extract_bearer_token :: "HeaderMap \<Rightarrow> (string, Error) Result" where
  "extract_bearer_token headers =
     (case headers ''authorization'' of
        None \<Rightarrow> Err MissingAuthorizationHeader
      | Some (Err err) \<Rightarrow> Err (InvalidAuthorizationHeader err)
      | Some (Ok authorization) \<Rightarrow>
          (case split_once (CHR '' '') authorization of
             Some (scheme, token) \<Rightarrow>
               if scheme = ''Bearer'' \<and> token \<noteq> [] then Ok token
               else if scheme = ''Bearer'' then Err (InvalidAuthorizationHeader ''missing bearer token'')
               else Err InvalidAuthorizationScheme
           | None \<Rightarrow> Err (InvalidAuthorizationHeader ''expected `Bearer <token>`'')))"

text \<open>\<open>str::get(..8)\<close> is \<open>None\<close> past the end and inside a UTF-8 sequence.\<close>

definition char_boundary :: "string \<Rightarrow> nat \<Rightarrow> bool" where
  "char_boundary s i \<longleftrightarrow>
     (if i = 0 \<or> i = length s then True
      else if i < length s
      then \<not> (128 \<le> (of_char (s ! i) :: nat) \<and> (of_char (s ! i) :: nat) < 192)
      else False)"

definition token_prefix :: "string \<Rightarrow> string" where
  "token_prefix token = (if char_boundary token 8 then take 8 token else token)"

subsection \<open>The cache of dispatchers\<close>

text \<open>\<open>mpsc::unbounded_channel\<close>, \<open>Sender::is_closed\<close>, spawning the dispatcher task of a channel,
  \<open>Sender::send\<close> (giving the receiver of the answer, or nothing when the channel is closed) and
  awaiting the answer.\<close>

record 'n chan_ops =
  unbounded_channel :: "'n \<Rightarrow> nat \<times> 'n"
  is_closed :: "nat \<Rightarrow> 'n \<Rightarrow> bool"
  spawn_dispatcher :: "nat \<Rightarrow> string \<Rightarrow> 'n \<Rightarrow> 'n"
  chan_send :: "nat \<Rightarrow> Request \<Rightarrow> 'n \<Rightarrow> nat option \<times> 'n"
  await_answer :: "nat \<Rightarrow> 'n \<Rightarrow> (Response, Error) Result option \<times> 'n"

type_synonym connections = "(string \<times> nat) list"

definition by_token :: "string \<Rightarrow> cond list" where
  "by_token token = [CEq ColToken (VStr token)]"

definition open_sender :: "'n chan_ops \<Rightarrow> connections \<Rightarrow> string \<Rightarrow> 'n \<Rightarrow> nat option" where
  "open_sender ch conns token n =
     (case hm_get conns token of
        Some sender \<Rightarrow> if \<not> is_closed ch sender n then Some sender else None
      | None \<Rightarrow> None)"

text \<open>The second critical section of \<open>sender_for\<close>.\<close>

definition sender_for_insert ::
  "'n chan_ops \<Rightarrow> string \<Rightarrow> connections \<Rightarrow> 'n \<Rightarrow> nat \<times> connections \<times> 'n" where
  "sender_for_insert ch token conns n =
     (case open_sender ch conns token n of
        Some sender \<Rightarrow> (sender, conns, n)
      | None \<Rightarrow>
          let (sender, n) = unbounded_channel ch n;
              conns = hm_insert token sender conns;
              n = spawn_dispatcher ch sender token n
          in (sender, conns, n))"

text \<open>While a query or an answer is awaited the other tasks of the server run: \<open>yield\<close> is what they
  do to the database, the shared cache and the network.\<close>

definition sender_for ::
  "'d db_ops \<Rightarrow> 'n chan_ops \<Rightarrow> ('d \<times> connections \<times> 'n \<Rightarrow> 'd \<times> connections \<times> 'n) \<Rightarrow> string
   \<Rightarrow> 'd \<Rightarrow> connections \<Rightarrow> 'n \<Rightarrow> (nat, Error) Result \<times> 'd \<times> connections \<times> 'n" where
  "sender_for db ch yield token d conns n =
     (case open_sender ch conns token n of
        Some sender \<Rightarrow> (Ok sender, d, conns, n)
      | None \<Rightarrow>
          (case db_one db (by_token token) d of (r, d) \<Rightarrow>
          (case yield (d, conns, n) of (d, conns, n) \<Rightarrow>
          (case r of
             Err e \<Rightarrow> (Err (Database e), d, conns, n)
           | Ok None \<Rightarrow> (Err ApplicationNotFound, d, conns, n)
           | Ok (Some app) \<Rightarrow>
               let (sender, conns, n) = sender_for_insert ch token conns n
               in (Ok sender, d, conns, n)))))"

definition remove_closed :: "'n chan_ops \<Rightarrow> string \<Rightarrow> connections \<Rightarrow> 'n \<Rightarrow> connections" where
  "remove_closed ch token conns n =
     (case hm_get conns token of
        Some sender \<Rightarrow> if is_closed ch sender n then hm_remove token conns else conns
      | None \<Rightarrow> conns)"

definition invalidate :: "string \<Rightarrow> connections \<Rightarrow> connections" where
  "invalidate token conns = hm_remove token conns"

definition dispatch_request ::
  "'d db_ops \<Rightarrow> 'n chan_ops \<Rightarrow> ('d \<times> connections \<times> 'n \<Rightarrow> 'd \<times> connections \<times> 'n) \<Rightarrow> Request
   \<Rightarrow> 'd \<Rightarrow> connections \<Rightarrow> 'n \<Rightarrow> (Response, Error) Result \<times> 'd \<times> connections \<times> 'n" where
  "dispatch_request db ch yield req d conns n =
     (case extract_bearer_token (req_headers req) of
        Err e \<Rightarrow> (Err e, d, conns, n)
      | Ok token \<Rightarrow>
     (case sender_for db ch yield token d conns n of
        (Err e, d, conns, n) \<Rightarrow> (Err e, d, conns, n)
      | (Ok sender, d, conns, n) \<Rightarrow>
     (case chan_send ch sender req n of
        (None, n) \<Rightarrow> (Err (Internal ''Upstream unexpectedly closed''), d,
                      remove_closed ch token conns n, n)
      | (Some rx, n) \<Rightarrow>
     (case yield (d, conns, n) of (d, conns, n) \<Rightarrow>
     (case await_answer ch rx n of
        (None, n) \<Rightarrow> (Err (Internal ''Upstream response channel unexpectedly closed''), d, conns, n)
      | (Some res, n) \<Rightarrow> (res, d, conns, n))))))"

subsection \<open>The proxy service\<close>

text \<open>\<open>NEXT_ID.fetch_add(1)\<close> on an \<open>AtomicU64\<close>.\<close>

definition ProxyService_new :: "u64 \<Rightarrow> u64 \<times> u64" where
  "ProxyService_new counter = (counter, counter + 1)"

definition ProxyService_call ::
  "(string \<Rightarrow> (string, string) Result)
   \<Rightarrow> (Request \<Rightarrow> 'd \<times> connections \<times> 'n \<Rightarrow> Response \<times> 'd \<times> connections \<times> 'n)
   \<Rightarrow> 'd db_ops \<Rightarrow> 'n chan_ops \<Rightarrow> ('d \<times> connections \<times> 'n \<Rightarrow> 'd \<times> connections \<times> 'n) \<Rightarrow> Request
   \<Rightarrow> 'd \<times> connections \<times> 'n \<Rightarrow> Response \<times> 'd \<times> connections \<times> 'n" where
  "ProxyService_call from_str router db ch yield req s =
     (if starts_with (req_path req) ''/spark.connect.SparkConnectService'' then
        (case s of (d, conns, n) \<Rightarrow>
           (case dispatch_request db ch yield req d conns n of
              (Ok res, s) \<Rightarrow> (res, s)
            | (Err error, s) \<Rightarrow> (proxy_error_response from_str error, s)))
      else router req s)"

subsection \<open>Messages to a session\<close>

record 'n http_client =
  client_build :: "(unit, string) Result"
  http_post :: "string \<Rightarrow> (string \<times> string) list \<Rightarrow> 'n \<Rightarrow> (StatusCode, string) Result \<times> 'n"
  error_for_status :: "StatusCode \<Rightarrow> (unit, string) Result"

definition session_url :: "string \<Rightarrow> string" where
  "session_url address = ''http://'' @ address @ ''/spark.connect.SparkConnectService/Config''"

definition session_headers :: "string \<Rightarrow> string \<Rightarrow> (string \<times> string) list" where
  "session_headers token message =
     [(''authorization'', ''Bearer '' @ token), (''X-Spark-Plug'', message),
      (''Content-Type'', ''application/grpc''), (''TE'', ''trailers'')]"

definition send_session_message ::
  "'n http_client \<Rightarrow> string \<Rightarrow> string \<Rightarrow> string \<Rightarrow> 'n \<Rightarrow> (unit, string) Result \<times> 'n" where
  "send_session_message http address token message n =
     (case client_build http of
        Err e \<Rightarrow> (Err e, n)
      | Ok _ \<Rightarrow>
          (case http_post http (session_url address) (session_headers token message) n of
             (Err e, n) \<Rightarrow> (Err e, n)
           | (Ok st, n) \<Rightarrow> (error_for_status http st, n)))"

subsection \<open>Finding the upstream\<close>

definition MAX_UPSTREAM_CONNECT_RETRIES :: nat where
  "MAX_UPSTREAM_CONNECT_RETRIES = 3"

definition UPSTREAM_CONNECT_RETRY_DELAY :: nat where
  "UPSTREAM_CONNECT_RETRY_DELAY = 1000"

text \<open>The polling loop: \<open>closed\<close> is \<open>rx.is_closed()\<close>, \<open>sleep\<close> takes milliseconds. The loop may
  wait forever, so it is a partial function.\<close>

partial_function (option) resolve_upstream_address ::
  "'d db_ops \<Rightarrow> (nat \<Rightarrow> 'd \<times> 'n \<Rightarrow> 'd \<times> 'n) \<Rightarrow> ('d \<times> 'n \<Rightarrow> bool) \<Rightarrow> string \<Rightarrow> 'd \<times> 'n
   \<Rightarrow> ((string, Error) Result \<times> 'd \<times> 'n) option" where
  "resolve_upstream_address db sleep closed token s =
     (if closed s then Some (Err ApplicationNotFound, s)
      else
        (case db_one db (by_token token) (fst s) of (r, d) \<Rightarrow>
           (case r of
              Err e \<Rightarrow> Some (Err (Database e), d, snd s)
            | Ok opt \<Rightarrow>
                (case opt of
                   None \<Rightarrow> Some (Err ApplicationNotFound, d, snd s)
                 | Some app \<Rightarrow>
                     (if app_state app = RUNNING
                      then Some (ok_or (app_address app) MissingApplicationAddress, d, snd s)
                      else if app_state app = LAUNCHING
                      then resolve_upstream_address db sleep closed token (sleep 1000 (d, snd s))
                      else Some (Err (InvalidApplicationState (app_state app)), d, snd s))))))"

declare resolve_upstream_address.simps [simp del]

record ('snd, 'n) h2_ops =
  tcp_connect :: "string \<Rightarrow> 'n \<Rightarrow> (nat, string) Result \<times> 'n"
  h2_handshake :: "nat \<Rightarrow> 'n \<Rightarrow> ('snd, string) Result \<times> 'n"
  h2_ready :: "'snd \<Rightarrow> 'n \<Rightarrow> (unit, string) Result \<times> 'n"
  h2_send :: "'snd \<Rightarrow> Request \<Rightarrow> 'n \<Rightarrow> nat \<times> 'n"
  parse_uri :: "string \<Rightarrow> (string, string) Result"

definition connect_upstream ::
  "('snd, 'n) h2_ops \<Rightarrow> string \<Rightarrow> 'd \<times> 'n \<Rightarrow> ('snd, Error) Result \<times> 'd \<times> 'n" where
  "connect_upstream h2 address s =
     (case tcp_connect h2 address (snd s) of
        (Err e, n) \<Rightarrow> (Err (UpstreamConnect e), fst s, n)
      | (Ok stream, n) \<Rightarrow>
          (case h2_handshake h2 stream n of
             (Err e, n) \<Rightarrow> (Err (UpstreamHandshake e), fst s, n)
           | (Ok sender, n) \<Rightarrow> (Ok sender, fst s, n)))"

definition failed_assigns :: "assignment list" where
  "failed_assigns = [(ColAddress, VNull), (ColState, VState FAILED)]"

definition mark_application_failed ::
  "'d db_ops \<Rightarrow> string \<Rightarrow> 'd \<times> 'n \<Rightarrow> (unit, Error) Result \<times> 'd \<times> 'n" where
  "mark_application_failed db token s =
     (case db_update_many db failed_assigns (by_token token) (fst s) of
        (Err e, d) \<Rightarrow> (Err (Database e), d, snd s)
      | (Ok _, d) \<Rightarrow> (Ok (), d, snd s))"

text \<open>The retry loop of \<open>resolve_upstream_connection\<close>, with the attempts that are left:
  \<open>attempt < MAX_UPSTREAM_CONNECT_RETRIES\<close> is \<open>0 < left\<close> after the current one. It ends with an early
  return, or falls through with \<open>last_error\<close>.\<close>

datatype ('a, 'e) loop_end = Return 'a | FallThrough "'e option"

fun connect_attempts ::
  "('snd, 'n) h2_ops \<Rightarrow> (nat \<Rightarrow> 'd \<times> 'n \<Rightarrow> 'd \<times> 'n) \<Rightarrow> string \<Rightarrow> nat \<Rightarrow> Error option \<Rightarrow> 'd \<times> 'n
   \<Rightarrow> (('snd \<times> string, Error) Result, Error) loop_end \<times> 'd \<times> 'n" where
  "connect_attempts h2 sleep address 0 last_error s = (FallThrough last_error, s)"
| "connect_attempts h2 sleep address (Suc left) last_error s =
     (case connect_upstream h2 address s of
        (Ok sender, s) \<Rightarrow> (Return (Ok (sender, address)), s)
      | (Err (UpstreamConnect e), s) \<Rightarrow>
          connect_attempts h2 sleep address left (Some (UpstreamConnect e))
            (if 0 < left then sleep UPSTREAM_CONNECT_RETRY_DELAY s else s)
      | (Err (UpstreamHandshake e), s) \<Rightarrow>
          connect_attempts h2 sleep address left (Some (UpstreamHandshake e))
            (if 0 < left then sleep UPSTREAM_CONNECT_RETRY_DELAY s else s)
      | (Err error, s) \<Rightarrow> (Return (Err error), s))"

text \<open>\<open>last_error.expect(..)\<close> of \<open>None\<close> would be a panic; \<open>connect_attempts_Some\<close> below shows that
  it does not happen.\<close>

definition connect_with_retries ::
  "'d db_ops \<Rightarrow> ('snd, 'n) h2_ops \<Rightarrow> (nat \<Rightarrow> 'd \<times> 'n \<Rightarrow> 'd \<times> 'n) \<Rightarrow> string \<Rightarrow> string \<Rightarrow> 'd \<times> 'n
   \<Rightarrow> ('snd \<times> string, Error) Result \<times> 'd \<times> 'n" where
  "connect_with_retries db h2 sleep token address s =
     (case connect_attempts h2 sleep address (Suc MAX_UPSTREAM_CONNECT_RETRIES) None s of
        (Return r, s) \<Rightarrow> (r, s)
      | (FallThrough last_error, s) \<Rightarrow>
          (case mark_application_failed db token s of
             (Err e, s) \<Rightarrow> (Err e, s)
           | (Ok _, s) \<Rightarrow>
               (case last_error of
                  Some e \<Rightarrow> (Err e, s)
                | None \<Rightarrow>
                    (Err (Internal ''connection retries should capture the last upstream error''),
                     s))))"

definition resolve_upstream_connection ::
  "'d db_ops \<Rightarrow> ('snd, 'n) h2_ops \<Rightarrow> (nat \<Rightarrow> 'd \<times> 'n \<Rightarrow> 'd \<times> 'n) \<Rightarrow> ('d \<times> 'n \<Rightarrow> bool) \<Rightarrow> string
   \<Rightarrow> 'd \<times> 'n \<Rightarrow> (('snd \<times> string, Error) Result \<times> 'd \<times> 'n) option" where
  "resolve_upstream_connection db h2 sleep closed token s =
     (case resolve_upstream_address db sleep closed token s of
        None \<Rightarrow> None
      | Some (Err e, s) \<Rightarrow> Some (Err e, s)
      | Some (Ok address, s) \<Rightarrow> Some (connect_with_retries db h2 sleep token address s))"

subsection \<open>The dispatcher task\<close>

text \<open>What becomes of one message: an error is sent to the requester, or the request goes out on a
  connection and a spawned task delivers the answer.\<close>

datatype 'snd outcome = Reply Error | Forwarded 'snd Request nat

definition forward_request ::
  "('snd, 'n) h2_ops \<Rightarrow> 'snd \<times> string \<Rightarrow> Request \<Rightarrow> 'd \<times> 'n
   \<Rightarrow> 'snd outcome \<times> ('snd \<times> string) option \<times> 'd \<times> 'n" where
  "forward_request h2 up req s =
     (case up of (sender, address) \<Rightarrow>
        let uri_string = ''http://'' @ address @ unwrap_or (path_and_query req) ''/''
        in (case parse_uri h2 uri_string of
              Err err \<Rightarrow> (Reply (InvalidUpstreamUri err), Some up, s)
            | Ok uri \<Rightarrow>
                let req = req\<lparr>req_uri := uri\<rparr>
                in (case h2_ready h2 sender (snd s) of
                      (Err error, n) \<Rightarrow> (Reply (UpstreamRequest error), None, fst s, n)
                    | (Ok _, n) \<Rightarrow>
                        (case h2_send h2 sender req n of
                           (response, n) \<Rightarrow> (Forwarded sender req response, Some up, fst s, n)))))"

definition upstream_message ::
  "'d db_ops \<Rightarrow> ('snd, 'n) h2_ops \<Rightarrow> (nat \<Rightarrow> 'd \<times> 'n \<Rightarrow> 'd \<times> 'n) \<Rightarrow> ('d \<times> 'n \<Rightarrow> bool) \<Rightarrow> string
   \<Rightarrow> ('snd \<times> string) option \<Rightarrow> Request \<Rightarrow> 'd \<times> 'n
   \<Rightarrow> ('snd outcome \<times> ('snd \<times> string) option \<times> 'd \<times> 'n) option" where
  "upstream_message db h2 sleep closed token upstream req s =
     (case extract_bearer_token (req_headers req) of
        Err error \<Rightarrow> Some (Reply error, upstream, s)
      | Ok t \<Rightarrow>
          if t \<noteq> token then Some (Reply InvalidAuthorizationToken, upstream, s)
          else
            (case upstream of
               Some up \<Rightarrow> Some (forward_request h2 up req s)
             | None \<Rightarrow>
                 (case resolve_upstream_connection db h2 sleep closed token s of
                    None \<Rightarrow> None
                  | Some (Err error, s) \<Rightarrow> Some (Reply error, None, s)
                  | Some (Ok up, s) \<Rightarrow> Some (forward_request h2 up req s))))"

text \<open>\<open>while let Some((req, tx)) = rx.recv().await\<close>: the messages received until the channel
  closes.\<close>

fun upstream_connection ::
  "'d db_ops \<Rightarrow> ('snd, 'n) h2_ops \<Rightarrow> (nat \<Rightarrow> 'd \<times> 'n \<Rightarrow> 'd \<times> 'n) \<Rightarrow> ('d \<times> 'n \<Rightarrow> bool) \<Rightarrow> string
   \<Rightarrow> ('snd \<times> string) option \<Rightarrow> Request list \<Rightarrow> 'd \<times> 'n
   \<Rightarrow> ('snd outcome list \<times> 'd \<times> 'n) option" where
  "upstream_connection db h2 sleep closed token upstream [] s = Some ([], s)"
| "upstream_connection db h2 sleep closed token upstream (req # reqs) s =
     (case upstream_message db h2 sleep closed token upstream req s of
        None \<Rightarrow> None
      | Some (out, upstream, s) \<Rightarrow>
          (case upstream_connection db h2 sleep closed token upstream reqs s of
             None \<Rightarrow> None
           | Some (outs, s) \<Rightarrow> Some (out # outs, s)))"

subsection \<open>Vocabulary of the properties\<close>

text \<open>The state at poll \<open>k\<close> of the waiting loop, and whether the loop goes on waiting there.\<close>

definition poll ::
  "'d db_ops \<Rightarrow> (nat \<Rightarrow> 'd \<times> 'n \<Rightarrow> 'd \<times> 'n) \<Rightarrow> string \<Rightarrow> 'd \<times> 'n \<Rightarrow> nat \<Rightarrow> 'd \<times> 'n" where
  "poll db sleep token s k =
     ((\<lambda>s. sleep 1000 (snd (db_one db (by_token token) (fst s)), snd s)) ^^ k) s"

definition waiting ::
  "'d db_ops \<Rightarrow> ('d \<times> 'n \<Rightarrow> bool) \<Rightarrow> string \<Rightarrow> 'd \<times> 'n \<Rightarrow> bool" where
  "waiting db closed token s \<longleftrightarrow> \<not> closed s \<and>
     (case fst (db_one db (by_token token) (fst s)) of
        Ok (Some app) \<Rightarrow> app_state app = LAUNCHING
      | _ \<Rightarrow> False)"

text \<open>The answer of the loop in a state where it does not wait.\<close>

definition address_answer ::
  "'d db_ops \<Rightarrow> ('d \<times> 'n \<Rightarrow> bool) \<Rightarrow> string \<Rightarrow> 'd \<times> 'n \<Rightarrow> (string, Error) Result" where
  "address_answer db closed token s =
     (if closed s then Err ApplicationNotFound
      else (case fst (db_one db (by_token token) (fst s)) of
              Err e \<Rightarrow> Err (Database e)
            | Ok None \<Rightarrow> Err ApplicationNotFound
            | Ok (Some app) \<Rightarrow>
                if app_state app = RUNNING then ok_or (app_address app) MissingApplicationAddress
                else Err (InvalidApplicationState (app_state app))))"

definition poll_end ::
  "'d db_ops \<Rightarrow> ('d \<times> 'n \<Rightarrow> bool) \<Rightarrow> string \<Rightarrow> 'd \<times> 'n \<Rightarrow> 'd \<times> 'n" where
  "poll_end db closed token s =
     (if closed s then s else (snd (db_one db (by_token token) (fst s)), snd s))"

text \<open>Every address recorded for the token is one of \<open>A\<close>.\<close>

definition addresses_in :: "string set \<Rightarrow> string \<Rightarrow> Model list \<Rightarrow> bool" where
  "addresses_in A token ms \<longleftrightarrow>
     (\<forall>m \<in> set ms. app_token m = token \<longrightarrow> (\<forall>a. app_address m = Some a \<longrightarrow> a \<in> A))"

definition opened_to :: "('snd, 'n) h2_ops \<Rightarrow> string \<Rightarrow> 'snd \<Rightarrow> bool" where
  "opened_to h2 a sender \<longleftrightarrow>
     (\<exists>n0 stream n1 n2. tcp_connect h2 a n0 = (Ok stream, n1) \<and> h2_handshake h2 stream n1 = (Ok sender, n2))"

definition upstream_ok :: "('snd, 'n) h2_ops \<Rightarrow> string set \<Rightarrow> ('snd \<times> string) option \<Rightarrow> bool" where
  "upstream_ok h2 A up = (case up of None \<Rightarrow> True | Some (x, a) \<Rightarrow> a \<in> A \<and> opened_to h2 a x)"

definition sent_to :: "('snd, 'n) h2_ops \<Rightarrow> string set \<Rightarrow> string \<Rightarrow> 'snd outcome \<Rightarrow> bool" where
  "sent_to h2 A token out =
     (case out of
        Reply e \<Rightarrow> True
      | Forwarded sender req rx \<Rightarrow>
          extract_bearer_token (req_headers req) = Ok token \<and>
          (\<exists>a \<in> A. opened_to h2 a sender \<and>
             parse_uri h2 (''http://'' @ a @ unwrap_or (path_and_query req) ''/'') = Ok (req_uri req)))"

text \<open>The end of the connection loop as one result.\<close>

fun loop_result ::
  "(('snd \<times> string, Error) Result, Error) loop_end \<times> 's \<Rightarrow> ('snd, Error) Result \<times> 's" where
  "loop_result (Return (Ok (sender, a)), s) = (Ok sender, s)"
| "loop_result (Return (Err e), s) = (Err e, s)"
| "loop_result (FallThrough (Some e), s) = (Err e, s)"
| "loop_result (FallThrough None, s) = (Err (Internal []), s)"

text \<open>Every cached sender belongs to a channel in use whose task, if it still runs, serves the
  token it is cached under.\<close>

definition cache_inv :: "(nat \<Rightarrow> string option) \<Rightarrow> nat set \<Rightarrow> connections \<Rightarrow> bool" where
  "cache_inv tasks in_use conns \<longleftrightarrow>
     (\<forall>t s. hm_get conns t = Some s \<longrightarrow> s \<in> in_use \<and> (tasks s = None \<or> tasks s = Some t))"

definition keeps_cache ::
  "('n \<Rightarrow> nat \<Rightarrow> string option) \<Rightarrow> ('n \<Rightarrow> nat set)
   \<Rightarrow> ('d \<times> connections \<times> 'n \<Rightarrow> 'd \<times> connections \<times> 'n) \<Rightarrow> bool" where
  "keeps_cache task used yield \<longleftrightarrow>
     (\<forall>d c n d' c' n'. cache_inv (task n) (used n) c \<longrightarrow> yield (d, c, n) = (d', c', n') \<longrightarrow>
        cache_inv (task n') (used n') c')"

text \<open>A runtime with numbered channels and the tokens of the live dispatcher tasks.\<close>

record rt =
  next_chan :: nat
  live :: "(nat \<times> string) list"

definition rt_ops :: "Response \<Rightarrow> rt chan_ops" where
  "rt_ops res = \<lparr>
     unbounded_channel = (\<lambda>n. (next_chan n, n\<lparr>next_chan := Suc (next_chan n)\<rparr>)),
     is_closed = (\<lambda>s n. hm_get (live n) s = None),
     spawn_dispatcher = (\<lambda>s t n. n\<lparr>live := hm_insert s t (live n)\<rparr>),
     chan_send = (\<lambda>s req n. (if hm_get (live n) s = None then None else Some s, n)),
     await_answer = (\<lambda>rx n. (Some (Ok res), n))\<rparr>"

section \<open>Readers of the bearer token\<close>

lemma extract_bearer_token_Ok_iff:
  "extract_bearer_token h = Ok t \<longleftrightarrow> t \<noteq> [] \<and> h ''authorization'' = Some (Ok (''Bearer '' @ t))"
proof -
  have bearer: "v = ''Bearer '' @ t \<longleftrightarrow> split_once (CHR '' '') v = Some (''Bearer'', t)" for v
    using split_once_Some_iff [of "CHR '' ''" v "''Bearer''" t] by simp
  show ?thesis
    unfolding extract_bearer_token_def
    by (auto simp del: append.simps simp: bearer split: option.splits Result.splits if_splits)
qed

section \<open>The cache\<close>

locale dispatcher_runtime =
  fixes ch :: "'n chan_ops" and task :: "'n \<Rightarrow> nat \<Rightarrow> string option" and used :: "'n \<Rightarrow> nat set"
  assumes channel_fresh: "unbounded_channel ch n = (s, n') \<Longrightarrow>
      s \<notin> used n \<and> used n' = insert s (used n) \<and> task n' = task n"
    and closed_iff: "is_closed ch s n \<longleftrightarrow> task n s = None"
    and spawn_task: "s \<in> used n \<Longrightarrow> task (spawn_dispatcher ch s t n) = (task n)(s := Some t)"
    and spawn_used: "s \<in> used n \<Longrightarrow> used (spawn_dispatcher ch s t n) = used n"
begin

lemma open_sender_Some:
  "cache_inv (task n) (used n) conns \<Longrightarrow> open_sender ch conns t n = Some s \<Longrightarrow>
   hm_get conns t = Some s \<and> task n s = Some t"
  by (fastforce simp: open_sender_def cache_inv_def closed_iff split: option.splits if_splits)

lemma sender_for_insert_live:
  assumes ok: "cache_inv (task n) (used n) conns" and ins: "sender_for_insert ch t conns n = (s, conns', n')"
  shows "task n' s = Some t" and "cache_inv (task n') (used n') conns'" and "hm_get conns' t = Some s"
    and "t' \<noteq> t \<Longrightarrow> hm_get conns' t' = hm_get conns t'"
proof -
  have "task n' s = Some t \<and> cache_inv (task n') (used n') conns' \<and> hm_get conns' t = Some s \<and>
      (t' \<noteq> t \<longrightarrow> hm_get conns' t' = hm_get conns t')"
  proof (cases "open_sender ch conns t n")
    case (Some s')
    with ok ins open_sender_Some show ?thesis by (auto simp: sender_for_insert_def)
  next
    case None
    obtain s' n1 where uc: "unbounded_channel ch n = (s', n1)" by fastforce
    note fresh = channel_fresh [OF uc]
    have eqs: "s = s'" "conns' = hm_insert t s' conns" "n' = spawn_dispatcher ch s' t n1"
      using None ins uc by (auto simp: sender_for_insert_def)
    have task: "task n' = (task n)(s' := Some t)" and used: "used n' = insert s' (used n)"
      using fresh by (auto simp: eqs spawn_task spawn_used)
    have "s'' \<noteq> s'" if "hm_get conns t'' = Some s''" for t'' s''
      using ok that fresh by (auto simp: cache_inv_def)
    with ok have "cache_inv (task n') (used n') conns'"
      by (auto simp: cache_inv_def eqs(2) task used hm_simps)
    then show ?thesis by (simp add: task eqs(1,2) hm_simps)
  qed
  then show "task n' s = Some t" and "cache_inv (task n') (used n') conns'" and "hm_get conns' t = Some s"
    and "t' \<noteq> t \<Longrightarrow> hm_get conns' t' = hm_get conns t'" by auto
qed

lemma sender_for_cache:
  assumes rely: "keeps_cache task used yield"
    and inv: "cache_inv (task n) (used n) conns"
    and sf: "sender_for db ch yield t d conns n = (r, d', conns', n')"
  shows "cache_inv (task n') (used n') conns'"
    and "r = Ok s \<Longrightarrow> task n' s = Some t \<and> hm_get conns' t = Some s"
proof -
  have "cache_inv (task n') (used n') conns' \<and>
      (r = Ok s \<longrightarrow> task n' s = Some t \<and> hm_get conns' t = Some s)"
  proof (cases "open_sender ch conns t n")
    case (Some s')
    with sf inv open_sender_Some [OF inv Some] show ?thesis by (auto simp: sender_for_def)
  next
    case None
    obtain q d1 where q: "db_one db (by_token t) d = (q, d1)" by fastforce
    obtain d2 c2 n2 where y: "yield (d1, conns, n) = (d2, c2, n2)" by (metis prod_cases3)
    have inv2: "cache_inv (task n2) (used n2) c2" using rely inv y by (auto simp: keeps_cache_def)
    obtain s3 c3 n3 where i: "sender_for_insert ch t c2 n2 = (s3, c3, n3)" by (metis prod_cases3)
    from None sf q y i inv2 sender_for_insert_live [OF inv2 i] show ?thesis
      by (auto simp: sender_for_def split: option.splits Result.splits)
  qed
  then show "cache_inv (task n') (used n') conns'"
    and "r = Ok s \<Longrightarrow> task n' s = Some t \<and> hm_get conns' t = Some s" by auto
qed

lemma cache_inv_invalidate: "cache_inv (task n) (used n) conns \<Longrightarrow> cache_inv (task n) (used n) (invalidate t conns)"
  by (auto simp: cache_inv_def invalidate_def hm_simps)

lemma cache_inv_remove_closed: "cache_inv (task n) (used n) conns \<Longrightarrow> cache_inv (task n) (used n) (remove_closed ch t conns n)"
  by (auto simp: cache_inv_def remove_closed_def hm_simps split: option.splits)

text \<open>A cached dispatcher is found again, without a database query.\<close>

lemma sender_for_again:
  assumes "task n s = Some t" and "hm_get conns t = Some s"
  shows "sender_for db ch yield t d conns n = (Ok s, d, conns, n)"
  using assms by (auto simp: sender_for_def open_sender_def closed_iff)

end

interpretation rt: dispatcher_runtime "rt_ops res" "\<lambda>n s. hm_get (live n) s" "\<lambda>n. {..<next_chan n}"
  by unfold_locales (auto simp: rt_ops_def hm_simps fun_eq_iff)

section \<open>Waiting for the address\<close>

lemma poll_simps [simp]:
  "poll db sleep token s 0 = s"
  "poll db sleep token s (Suc k) =
     poll db sleep token (sleep 1000 (snd (db_one db (by_token token) (fst s)), snd s)) k"
  by (simp_all add: poll_def funpow_Suc_right del: funpow.simps(2))

lemma resolve_step:
  "resolve_upstream_address db sleep closed token s =
     (if waiting db closed token s
      then resolve_upstream_address db sleep closed token (poll db sleep token s (Suc 0))
      else Some (address_answer db closed token s, poll_end db closed token s))"
proof -
  obtain r d where q: "db_one db (by_token token) (fst s) = (r, d)" by fastforce
  show ?thesis
    by (subst resolve_upstream_address.simps)
      (auto simp: waiting_def address_answer_def poll_end_def q split: Result.splits option.splits)
qed

lemma resolve_at:
  assumes "\<And>j. j < k \<Longrightarrow> waiting db closed token (poll db sleep token s j)"
    and "\<not> waiting db closed token (poll db sleep token s k)"
  shows "resolve_upstream_address db sleep closed token s =
     Some (address_answer db closed token (poll db sleep token s k),
           poll_end db closed token (poll db sleep token s k))"
  using assms
proof (induction k arbitrary: s)
  case 0
  then show ?case by (subst resolve_step) simp
next
  case (Suc k)
  let ?s = "poll db sleep token s (Suc 0)"
  have "waiting db closed token s" using Suc.prems(1) [of 0] by simp
  moreover have "resolve_upstream_address db sleep closed token ?s =
      Some (address_answer db closed token (poll db sleep token ?s k),
            poll_end db closed token (poll db sleep token ?s k))"
    using Suc.IH [of ?s] Suc.prems(1) [of "Suc j" for j] Suc.prems(2) by simp
  ultimately show ?case by (subst resolve_step) simp
qed

lemma resolve_returns:
  fixes db :: "'d db_ops" and sleep :: "nat \<Rightarrow> 'd \<times> 'n \<Rightarrow> 'd \<times> 'n"
  assumes "resolve_upstream_address db sleep closed token s = Some y"
  shows "\<exists>k. \<not> waiting db closed token (poll db sleep token s k)"
  using assms
proof (rule resolve_upstream_address.raw_induct [where P = "\<lambda>(db :: 'd db_ops)
      (sleep :: nat \<Rightarrow> 'd \<times> 'n \<Rightarrow> 'd \<times> 'n) closed token s _.
      \<exists>k. \<not> waiting db closed token (poll db sleep token s k)", rotated], goal_cases)
  case (1 rec db sleep closed token s y)
  show ?case
  proof (cases "waiting db closed token s")
    case True
    then have "rec db sleep closed token (poll db sleep token s (Suc 0)) = Some y"
      using 1(2) by (auto simp: waiting_def split: Result.splits option.splits prod.splits)
    from 1(1) [OF this] obtain k
      where "\<not> waiting db closed token (poll db sleep token (poll db sleep token s (Suc 0)) k)" ..
    then have "\<not> waiting db closed token (poll db sleep token s (Suc k))" by simp
    then show ?thesis ..
  next
    case False
    then have "\<not> waiting db closed token (poll db sleep token s 0)" by simp
    then show ?thesis ..
  qed
qed

lemma resolve_first:
  "resolve_upstream_address db sleep closed token s =
     (if \<exists>k. \<not> waiting db closed token (poll db sleep token s k)
      then let s' = poll db sleep token s (LEAST k. \<not> waiting db closed token (poll db sleep token s k))
           in Some (address_answer db closed token s', poll_end db closed token s')
      else None)"
proof (cases "\<exists>k. \<not> waiting db closed token (poll db sleep token s k)")
  case True
  let ?k = "LEAST k. \<not> waiting db closed token (poll db sleep token s k)"
  have "\<not> waiting db closed token (poll db sleep token s ?k)" using True by (rule LeastI_ex)
  moreover have "waiting db closed token (poll db sleep token s j)" if "j < ?k" for j
    using not_less_Least [OF that] by blast
  ultimately have "resolve_upstream_address db sleep closed token s =
      Some (address_answer db closed token (poll db sleep token s ?k),
            poll_end db closed token (poll db sleep token s ?k))" by (intro resolve_at)
  with True show ?thesis by (simp add: Let_def)
next
  case False
  have "resolve_upstream_address db sleep closed token s = None"
  proof (rule ccontr)
    assume "resolve_upstream_address db sleep closed token s \<noteq> None"
    then obtain y where "resolve_upstream_address db sleep closed token s = Some y" by blast
    from False resolve_returns [OF this] show False by (rule notE)
  qed
  with False show ?thesis by simp
qed

section \<open>Connecting\<close>

lemma connect_upstream_db: "connect_upstream h2 a s = (r, s') \<Longrightarrow> fst s' = fst s"
  by (auto simp: connect_upstream_def split: Result.splits prod.splits)

lemma connect_upstream_Ok: "connect_upstream h2 a s = (Ok x, s') \<Longrightarrow> opened_to h2 a x"
  by (fastforce simp: connect_upstream_def opened_to_def split: Result.splits prod.splits)

lemma connect_upstream_Err:
  assumes "connect_upstream h2 a s = (Err e, s')"
  obtains m where "e = UpstreamConnect m" | m where "e = UpstreamHandshake m"
  using assms by (auto simp: connect_upstream_def split: Result.splits prod.splits)

text \<open>The loop is the bounded retry of one connection attempt, and it always records an error
  before it falls through.\<close>

lemma connect_attempts_Some:
  "connect_attempts h2 sleep address (Suc k) last_error s =
     (case retry (connect_upstream h2 address) (sleep UPSTREAM_CONNECT_RETRY_DELAY) k s of
        (Ok sender, s) \<Rightarrow> (Return (Ok (sender, address)), s)
      | (Err e, s) \<Rightarrow> (FallThrough (Some e), s))"
proof (induction k arbitrary: last_error s)
  case 0
  obtain r s' where c: "connect_upstream h2 address s = (r, s')" by (rule prod.exhaust)
  then show ?case by (cases r) (auto elim: connect_upstream_Err)
next
  case (Suc k)
  obtain r s' where c: "connect_upstream h2 address s = (r, s')" by (rule prod.exhaust)
  show ?case
  proof (cases r)
    case (Ok x)
    with c show ?thesis by simp
  next
    case (Err e)
    have fail: "connect_attempts h2 sleep address (Suc (Suc k)) last_error s =
        connect_attempts h2 sleep address (Suc k) (Some e) (sleep UPSTREAM_CONNECT_RETRY_DELAY s')"
      using c [unfolded Err]
      by (cases rule: connect_upstream_Err)
        (simp_all add: connect_attempts.simps(2) [of _ _ _ "Suc k"] c Err del: connect_attempts.simps)
    show ?thesis unfolding fail Suc.IH by (simp add: c Err)
  qed
qed

interpretation connect_loop: bounded_retry "connect_upstream h2 address"
  "sleep UPSTREAM_CONNECT_RETRY_DELAY" MAX_UPSTREAM_CONNECT_RETRIES
  "\<lambda>s. loop_result (connect_attempts h2 sleep address (Suc MAX_UPSTREAM_CONNECT_RETRIES) None s)"
  by unfold_locales
    (simp add: connect_attempts_Some del: connect_attempts.simps split: prod.splits Result.splits)

lemma connect_with_retries_eq:
  "connect_with_retries db h2 sleep token address s =
     (case retry (connect_upstream h2 address) (sleep UPSTREAM_CONNECT_RETRY_DELAY)
             MAX_UPSTREAM_CONNECT_RETRIES s of
        (Ok sender, s) \<Rightarrow> (Ok (sender, address), s)
      | (Err e, s) \<Rightarrow>
          (case mark_application_failed db token s of
             (Err e', s) \<Rightarrow> (Err e', s)
           | (Ok _, s) \<Rightarrow> (Err e, s)))"
  by (auto simp: connect_with_retries_def connect_attempts_Some simp del: connect_attempts.simps
      split: prod.splits Result.splits)

lemma addresses_in_failed:
  assumes "addresses_in A token ms"
  shows "addresses_in A token (update_rows failed_assigns cs ms)"
  unfolding addresses_in_def set_update_rows
proof (intro ballI impI allI, elim imageE)
  fix m m' a
  assume "app_address m = Some a" "app_token m = token" "m' \<in> set ms"
    and "m = (if holds_all cs m' then set_cols failed_assigns m' else m')"
  with assms show "a \<in> A"
    by (cases "holds_all cs m'") (simp_all add: failed_assigns_def addresses_in_def)
qed

context app_store
begin

lemma mark_failed_cases:
  assumes "mark_application_failed db token s = (r, s')"
  obtains (marked) "r = Ok ()" "rows (fst s') = update_rows failed_assigns (by_token token) (rows (fst s))"
    | (db_error) e where "r = Err (Database e)" "rows (fst s') = rows (fst s)"
  using assms update_many_OkD(1) update_many_ErrD
  by (auto simp: mark_application_failed_def split: prod.splits Result.splits)

lemma address_answer_in:
  assumes "addresses_in A token (rows (fst s))" and "address_answer db closed token s = Ok a"
  shows "a \<in> A"
proof -
  obtain r d where q: "db_one db (by_token token) (fst s) = (r, d)" by (rule prod.exhaust)
  with assms(2) obtain app where r: "r = Ok (Some app)" and a: "app_address app = Some a"
    by (auto simp: address_answer_def split: if_splits Result.splits option.splits)
  from one_SomeD [OF q [unfolded r]] a assms(1) show ?thesis
    by (auto simp: addresses_in_def by_token_def)
qed

lemma poll_addresses_in:
  assumes sleep: "\<And>k s. addresses_in A token (rows (fst s)) \<Longrightarrow> addresses_in A token (rows (fst (sleep k s)))"
    and "addresses_in A token (rows (fst s))"
  shows "addresses_in A token (rows (fst (poll db sleep token s k)))"
  using assms(2)
proof (induction k arbitrary: s)
  case (Suc k)
  obtain r d where q: "db_one db (by_token token) (fst s) = (r, d)" by (rule prod.exhaust)
  from one_rows [OF q] Suc.prems have "addresses_in A token (rows (fst (d, snd s)))" by simp
  from Suc.IH [OF sleep [OF this]] show ?case by (simp add: q)
qed simp

lemma resolve_addresses_in:
  assumes "\<And>k s. addresses_in A token (rows (fst s)) \<Longrightarrow> addresses_in A token (rows (fst (sleep k s)))"
    and "addresses_in A token (rows (fst s))"
    and "resolve_upstream_address db sleep closed token s = Some (r, s')"
  shows "addresses_in A token (rows (fst s')) \<and> (r = Ok a \<longrightarrow> a \<in> A)"
proof -
  from assms(3) obtain k where r: "r = address_answer db closed token (poll db sleep token s k)"
    and s': "s' = poll_end db closed token (poll db sleep token s k)"
    by (auto simp: resolve_first Let_def split: if_splits)
  note inv = poll_addresses_in [where sleep = sleep, OF assms(1,2), of k]
  obtain q d where q: "db_one db (by_token token) (fst (poll db sleep token s k)) = (q, d)"
    by (rule prod.exhaust)
  show ?thesis
    using inv address_answer_in [OF inv] r one_rows [OF q] by (auto simp: s' poll_end_def q)
qed

lemma connect_addresses_in:
  assumes sleep: "\<And>k s. addresses_in A token (rows (fst s)) \<Longrightarrow> addresses_in A token (rows (fst (sleep k s)))"
    and inv: "addresses_in A token (rows (fst s))"
    and con: "connect_with_retries db h2 sleep token a s = (r, s')"
  shows "addresses_in A token (rows (fst s')) \<and> (r = Ok (x, a') \<longrightarrow> a' = a \<and> opened_to h2 a x)"
proof -
  obtain q u where rt: "retry (connect_upstream h2 a) (sleep UPSTREAM_CONNECT_RETRY_DELAY)
      MAX_UPSTREAM_CONNECT_RETRIES s = (q, u)" by (rule prod.exhaust)
  have u: "addresses_in A token (rows (fst u))"
    by (rule retry_invariant [where P = "\<lambda>s. addresses_in A token (rows (fst s))", OF _ sleep inv rt])
      (use connect_upstream_db in metis)
  show ?thesis
  proof (cases q)
    case (Ok y)
    with rt obtain s0 where "connect_upstream h2 a s0 = (Ok y, u)" using retry_OkD by metis
    then have "opened_to h2 a y" by (rule connect_upstream_Ok)
    moreover have "r = Ok (y, a)" and "s' = u" using rt con Ok by (simp_all add: connect_with_retries_eq)
    ultimately show ?thesis using u by (metis Result.inject(1) prod.inject)
  next
    case (Err e)
    obtain m v where m: "mark_application_failed db token u = (m, v)" by (rule prod.exhaust)
    then have "addresses_in A token (rows (fst v))"
      by (cases rule: mark_failed_cases)
        (use u addresses_in_failed in simp_all)
    moreover have "s' = v \<and> (r = Err e \<or> m = Err (err_val m) \<and> r = Err (err_val m))"
      using con rt Err m unfolding connect_with_retries_eq by (cases m) simp_all
    ultimately show ?thesis by auto
  qed
qed

lemma resolve_connection_in:
  assumes sleep: "\<And>k s. addresses_in A token (rows (fst s)) \<Longrightarrow> addresses_in A token (rows (fst (sleep k s)))"
    and inv: "addresses_in A token (rows (fst s))"
    and res: "resolve_upstream_connection db h2 sleep closed token s = Some (r, s')"
  shows "addresses_in A token (rows (fst s')) \<and> (r = Ok up \<longrightarrow> upstream_ok h2 A (Some up))"
proof -
  obtain q u where q: "resolve_upstream_address db sleep closed token s = Some (q, u)"
    using res by (auto simp: resolve_upstream_connection_def split: option.splits)
  show ?thesis
  proof (cases q)
    case (Ok a)
    with resolve_addresses_in [OF sleep inv q, of a]
    have u: "addresses_in A token (rows (fst u))" and a: "a \<in> A" by auto
    have con: "connect_with_retries db h2 sleep token a u = (r, s')"
      using res q Ok by (auto simp: resolve_upstream_connection_def)
    obtain x b where up: "up = (x, b)" by (rule prod.exhaust)
    from connect_addresses_in [OF sleep u con, of x b] a show ?thesis
      by (auto simp: upstream_ok_def up)
  next
    case (Err e)
    with res q resolve_addresses_in [OF sleep inv q] show ?thesis
      by (auto simp: resolve_upstream_connection_def)
  qed
qed

lemma forward_sent_to:
  assumes "extract_bearer_token (req_headers req) = Ok token" and "upstream_ok h2 A (Some up)"
    and "forward_request h2 up req s = (out, up', s')"
  shows "sent_to h2 A token out \<and> fst s' = fst s \<and> upstream_ok h2 A up'"
proof -
  obtain x a where up: "up = (x, a)" by (rule prod.exhaust)
  from assms show ?thesis
    by (auto simp: up forward_request_def sent_to_def upstream_ok_def Let_def
        split: Result.splits prod.splits)
qed

lemma upstream_message_sent_to:
  assumes sleep: "\<And>k s. addresses_in A token (rows (fst s)) \<Longrightarrow> addresses_in A token (rows (fst (sleep k s)))"
    and inv: "addresses_in A token (rows (fst s))" and up: "upstream_ok h2 A up"
    and msg: "upstream_message db h2 sleep closed token up req s = Some (out, up', s')"
  shows "sent_to h2 A token out \<and> addresses_in A token (rows (fst s')) \<and> upstream_ok h2 A up'"
proof (cases "extract_bearer_token (req_headers req) = Ok token")
  case False
  with msg inv up show ?thesis
    by (auto simp: upstream_message_def sent_to_def split: Result.splits if_splits)
next
  case tok: True
  show ?thesis
  proof (cases up)
    case (Some p)
    then have "forward_request h2 p req s = (out, up', s')" and "upstream_ok h2 A (Some p)"
      using msg tok up by (simp_all add: upstream_message_def)
    with forward_sent_to [OF tok this(2,1)] inv show ?thesis by simp
  next
    case None
    then obtain r u where res: "resolve_upstream_connection db h2 sleep closed token s = Some (r, u)"
      using msg tok by (auto simp: upstream_message_def split: option.splits)
    note conn = resolve_connection_in [OF sleep inv res]
    show ?thesis
    proof (cases r)
      case (Ok p)
      then have "forward_request h2 p req u = (out, up', s')"
        using msg tok None res by (simp add: upstream_message_def)
      with forward_sent_to [OF tok _ this, of A] conn [of p] Ok show ?thesis by simp
    next
      case (Err e)
      with msg tok None res conn show ?thesis
        by (auto simp: upstream_message_def sent_to_def upstream_ok_def)
    qed
  qed
qed

lemma upstream_connection_sent_to:
  assumes sleep: "\<And>k s. addresses_in A token (rows (fst s)) \<Longrightarrow> addresses_in A token (rows (fst (sleep k s)))"
    and "addresses_in A token (rows (fst s))" and "upstream_ok h2 A up"
    and "upstream_connection db h2 sleep closed token up reqs s = Some (outs, s')"
  shows "list_all (sent_to h2 A token) outs \<and> length outs = length reqs"
  using assms(2-)
proof (induction reqs arbitrary: up s outs)
  case (Cons req reqs)
  then obtain out up1 s1 outs' where m: "upstream_message db h2 sleep closed token up req s = Some (out, up1, s1)"
    and rest: "upstream_connection db h2 sleep closed token up1 reqs s1 = Some (outs', s')"
    and outs: "outs = out # outs'"
    by (auto split: option.splits prod.splits)
  from upstream_message_sent_to [OF sleep Cons.prems(1,2) m] Cons.IH [OF _ _ rest] outs
  show ?case by simp
qed simp

end

section \<open>Properties\<close>

text \<open>Every reader of the bearer token (the proxy, the callback routes and the user
  authenticators) sees the same token in a request, except that the proxy refuses the empty
  one.\<close>

lemma bearer_readers_agree:
  assumes "header_map h"
  shows "(extract_bearer_token h = Ok t \<longleftrightarrow> t \<noteq> [] \<and> TokenAuth_authorize h = Ok t) \<and>
         (TokenAuth_authorize h = Ok t \<longleftrightarrow> auth_extract_bearer_token h = Ok (Some t))"
  using header_map.TokenAuth_Ok_iff [OF assms] header_map.auth_extract_Some_iff [OF assms]
    header_map.authorization_name [OF assms] extract_bearer_token_Ok_iff
  by metis

text \<open>C9: the sender handed out for a token belongs to a live dispatcher task of exactly that
  token, it is the one in the cache, and the cache stays consistent, whatever the other tasks do
  to the cache while the database is queried, as long as they keep it consistent. The next
  request with the token gets the same sender, without a database query.\<close>

theorem sender_for_own_dispatcher:
  assumes rt: "dispatcher_runtime ch task used"
    and rely: "keeps_cache task used yield"
    and inv: "cache_inv (task n) (used n) conns"
    and sf: "sender_for db ch yield t d conns n = (Ok s, d', conns', n')"
  shows "task n' s = Some t \<and> hm_get conns' t = Some s \<and> cache_inv (task n') (used n') conns' \<and>
         sender_for db2 ch yield2 t d2 conns' n' = (Ok s, d2, conns', n')"
proof -
  have "cache_inv (task n') (used n') conns'"
    by (rule dispatcher_runtime.sender_for_cache(1) [OF rt rely inv sf])
  moreover have "task n' s = Some t \<and> hm_get conns' t = Some s"
    by (rule dispatcher_runtime.sender_for_cache(2) [OF rt rely inv sf refl])
  ultimately show ?thesis
    using dispatcher_runtime.sender_for_again [OF rt, of n' s t conns' db2 yield2 d2] by simp
qed

definition demo_app :: Model where
  "demo_app = (blank_row 1 0)\<lparr>username := ''alice'', app_token := ''t1'',
     app_state := RUNNING, app_address := Some ''h:1''\<rparr>"

definition demo_mem :: mem where
  "demo_mem = \<lparr>table = [demo_app], next_id = 2, mem_now = 0, faults = []\<rparr>"

definition demo_res :: Response where
  "demo_res = \<lparr>status = 200, resp_headers = [], body = []\<rparr>"

theorem sender_for_own_dispatcher_witness:
  "hm_get (live \<lparr>next_chan = 1, live = [(0, ''t1'')]\<rparr>) 0 = Some ''t1'' \<and>
   sender_for mem_db (rt_ops demo_res) (\<lambda>w. w) ''t1'' demo_mem [(''t1'', 0)]
     \<lparr>next_chan = 1, live = [(0, ''t1'')]\<rparr> =
   (Ok 0, demo_mem, [(''t1'', 0)], \<lparr>next_chan = 1, live = [(0, ''t1'')]\<rparr>)"
proof -
  have sf: "sender_for mem_db (rt_ops demo_res) (\<lambda>w. w) ''t1'' demo_mem [] \<lparr>next_chan = 0, live = []\<rparr> =
      (Ok 0, demo_mem, [(''t1'', 0)], \<lparr>next_chan = 1, live = [(0, ''t1'')]\<rparr>)"
    by (simp add: sender_for_def open_sender_def sender_for_insert_def rt_ops_def mem_db_def
        with_fault_def demo_mem_def demo_app_def by_token_def hm_get_def hm_insert_def)
  show ?thesis
    using sender_for_own_dispatcher [OF rt.dispatcher_runtime_axioms _ _ sf,
        of mem_db "\<lambda>w. w" demo_mem]
    by (simp add: cache_inv_def keeps_cache_def hm_get_def)
qed

text \<open>A token that no application has is never cached: unless the cache already has an open
  dispatcher for it, the lookup fails (not found, or a database error) and leaves the cache and
  the network exactly as the other tasks left them.\<close>

lemma unknown_token_not_cached:
  assumes "app_store db rows" and "list_all (\<lambda>m. app_token m \<noteq> t) (rows d)"
    and "open_sender ch conns t n = None"
  shows "\<exists>r d1. rows d1 = rows d \<and> sender_for db ch yield t d conns n = (Err r, yield (d1, conns, n)) \<and>
           (r = ApplicationNotFound \<or> (\<exists>e. r = Database e))"
proof -
  obtain q d1 where q: "db_one db (by_token t) d = (q, d1)" by (rule prod.exhaust)
  have "q \<noteq> Ok (Some m)" for m
    using app_store.one_SomeD [OF assms(1), of "by_token t" d m d1] q assms(2)
    by (auto simp: by_token_def list_all_iff)
  with assms(3) q app_store.one_rows [OF assms(1) q] show ?thesis
    by (auto simp: sender_for_def split: Result.splits option.splits prod.splits intro!: exI [of _ d1])
qed

text \<open>C21: while the application is launching, the dispatcher polls once per second; it answers at
  the first poll where the application is no longer launching (or the requests are gone), with
  what the database says at that poll (the address, or the error of that situation), and it
  waits forever exactly when no such poll comes.\<close>

theorem resolve_upstream_address_polls:
  "map_option fst (resolve_upstream_address db sleep closed token s) =
     (if \<exists>k. \<not> waiting db closed token (poll db sleep token s k)
      then Some (address_answer db closed token
             (poll db sleep token s (LEAST k. \<not> waiting db closed token (poll db sleep token s k))))
      else None)"
  by (simp add: resolve_first Let_def)

text \<open>C22: connecting makes at most four attempts, one second apart, and returns the connection of the first
  one that succeeds, with the address and without writing to the database. If all four fail, the
  rows of the token are updated: they become FAILED without an address, all other rows are
  untouched, and the error of the last attempt is reported; only if this update fails its error is
  reported instead and no row is changed.\<close>

theorem connect_with_retries_outcome:
  fixes h2 :: "('snd, 'n) h2_ops" and sleep :: "nat \<Rightarrow> 'd \<times> 'n \<Rightarrow> 'd \<times> 'n" and address :: string
  assumes "app_store db rows"
    and st: "st = (\<lambda>i. retry_state (connect_upstream h2 address) (sleep 1000) i s)"
    and con: "connect_with_retries db h2 sleep token address s = (r, s')"
  shows "(\<exists>i \<le> 3. \<exists>x. (\<forall>j < i. \<not> is_ok (fst (connect_upstream h2 address (st j)))) \<and>
            connect_upstream h2 address (st i) = (Ok x, s') \<and> fst s' = fst (st i) \<and> r = Ok (x, address)) \<or>
         (\<forall>j \<le> 3. \<not> is_ok (fst (connect_upstream h2 address (st j)))) \<and>
          (\<exists>e t v. connect_upstream h2 address (st 3) = (Err e, t) \<and>
             db_update_many db [(ColAddress, VNull), (ColState, VState FAILED)] [CEq ColToken (VStr token)] (fst t) = (v, fst s') \<and>
             (case v of
                Ok k \<Rightarrow> r = Err e \<and> rows (fst s') =
                  map (\<lambda>m. if app_token m = token then m\<lparr>app_address := None, app_state := FAILED\<rparr> else m) (rows (fst t))
              | Err m \<Rightarrow> r = Err (Database m) \<and> rows (fst s') = rows (fst t)))"
proof -
  let ?f = "connect_upstream h2 address" and ?loop = "\<lambda>s. retry (connect_upstream h2 address)
      (sleep UPSTREAM_CONNECT_RETRY_DELAY) MAX_UPSTREAM_CONNECT_RETRIES s"
  note cases = connect_loop.loop_cases [of h2 sleep address s, unfolded connect_loop.retry_loop_eq]
  note defs = st UPSTREAM_CONNECT_RETRY_DELAY_def MAX_UPSTREAM_CONNECT_RETRIES_def
  show ?thesis
  proof (cases rule: cases)
    case (1 i x t)
    then have "i \<le> 3 \<and> ?f (st i) = (Ok x, s') \<and> r = Ok (x, address)" "\<forall>j < i. \<not> is_ok (fst (?f (st j)))"
      using con by (simp_all add: connect_with_retries_eq defs)
    moreover from this have "fst s' = fst (st i)"
      by (auto simp: connect_upstream_def split: prod.splits Result.splits)
    ultimately show ?thesis by blast
  next
    case 2
    then have fails: "\<not> is_ok (fst (?f (st i)))" if "i \<le> 3" for i using that by (simp add: defs)
    then obtain e t where e: "?f (st 3) = (Err e, t)"
      using fails [of 3] by (cases "?f (st 3)"; cases "fst (?f (st 3))") (auto simp: is_ok_iff)
    have loop: "?loop s = (Err e, t)" using 2(1) e by (simp add: defs)
    let ?as = "[(ColAddress, VNull), (ColState, VState FAILED)]" and ?cs = "[CEq ColToken (VStr token)]"
    obtain v d where v: "db_update_many db ?as ?cs (fst t) = (v, d)" by (rule prod.exhaust)
    have run: "fst s' = d" "r = (case v of Ok k \<Rightarrow> Err e | Err m \<Rightarrow> Err (Database m))"
      using con loop v
      by (cases v; simp add: connect_with_retries_eq mark_application_failed_def failed_assigns_def by_token_def; auto)+
    from assms(1) v have "case v of
        Ok k \<Rightarrow> rows d = map (\<lambda>m. if app_token m = token then m\<lparr>app_address := None, app_state := FAILED\<rparr> else m) (rows (fst t))
      | Err m \<Rightarrow> rows d = rows (fst t)"
      by (cases rule: app_store.update_many_cases) (auto simp: update_rows_def)
    with e v run have "?f (st 3) = (Err e, t) \<and> db_update_many db ?as ?cs (fst t) = (v, fst s') \<and>
        (case v of
           Ok k \<Rightarrow> r = Err e \<and> rows (fst s') =
             map (\<lambda>m. if app_token m = token then m\<lparr>app_address := None, app_state := FAILED\<rparr> else m) (rows (fst t))
         | Err m \<Rightarrow> r = Err (Database m) \<and> rows (fst s') = rows (fst t))"
      by (cases v) simp_all
    with fails show ?thesis by blast
  qed
qed

definition demo_h2 :: "(nat, nat) h2_ops" where
  "demo_h2 = \<lparr>
     tcp_connect = (\<lambda>a n. if 0 < n then (Err ''refused'', n - 1) else (Ok 7, n)),
     h2_handshake = (\<lambda>stream n. (Ok stream, n)), h2_ready = (\<lambda>x n. (Ok (), n)),
     h2_send = (\<lambda>x req n. (3, n)), parse_uri = Ok\<rparr>"

text \<open>A session that refuses the first two connections, and one that refuses all four.\<close>

theorem connect_with_retries_outcome_witness:
  "connect_with_retries mem_db demo_h2 (\<lambda>k s. s) ''t1'' ''h:1'' (demo_mem, 2) = (Ok (7, ''h:1''), demo_mem, 0) \<and>
   fst (connect_with_retries mem_db demo_h2 (\<lambda>k s. s) ''t1'' ''h:1'' (demo_mem, 4)) = Err (UpstreamConnect ''refused'') \<and>
   table (fst (snd (connect_with_retries mem_db demo_h2 (\<lambda>k s. s) ''t1'' ''h:1'' (demo_mem, 4))))
     = [demo_app\<lparr>app_address := None, app_state := FAILED\<rparr>]"
proof -
  let ?f = "connect_upstream demo_h2 ''h:1''"
  let ?c = "\<lambda>n. connect_with_retries mem_db demo_h2 (\<lambda>k s. s) ''t1'' ''h:1'' (demo_mem, n)"
  let ?st = "\<lambda>n i. retry_state (connect_upstream demo_h2 ''h:1'') (\<lambda>s. s) i (demo_mem, n)"
  note out = connect_with_retries_outcome [OF mem.app_store_axioms refl prod.collapse [symmetric],
      where ?h2.0 = demo_h2 and sleep = "\<lambda>k s. s" and token = "''t1''" and address = "''h:1''"]
  have f: "?f (d, n) = (if 0 < n then (Err (UpstreamConnect ''refused''), d, n - 1) else (Ok 7, d, 0))" for d :: mem and n
    by (simp add: connect_upstream_def demo_h2_def)
  have st: "?st 2 2 = (demo_mem, 0)" "?st 4 3 = (demo_mem, 1)"
    by (simp_all add: f numeral_2_eq_2 numeral_3_eq_3)
  have first: "i = 2" if "\<forall>j < i. \<not> is_ok (fst (?f (?st 2 j)))" "?f (?st 2 i) = (Ok x, s')" "i \<le> 3" for i x s'
  proof -
    have "\<not> 2 < i" using that(1) st(1) by (auto simp: f)
    moreover have "i \<noteq> 0" "i \<noteq> 1" by (rule notI, use that(2) in \<open>simp add: f\<close>)+
    ultimately show ?thesis by simp
  qed
  have "?c 2 = (Ok (7, ''h:1''), demo_mem, 0)"
  proof -
    have ok: "is_ok (fst (?f (?st 2 2)))" by (simp add: st f)
    consider (up) i x where "i \<le> 3" "\<forall>j < i. \<not> is_ok (fst (?f (?st 2 j)))"
        "?f (?st 2 i) = (Ok x, snd (?c 2))" "fst (?c 2) = Ok (x, ''h:1'')"
      | (down) "\<forall>j \<le> 3. \<not> is_ok (fst (?f (?st 2 j)))"
      using out [of "(demo_mem, 2)"] by (elim disjE exE conjE) assumption+
    then show ?thesis
    proof cases
      case (up i x)
      with first [OF up(2,3,1)] show ?thesis by (auto simp: st f intro: prod_eqI)
    next
      case down
      with ok show ?thesis by (simp add: spec [OF down, of 2])
    qed
  qed
  moreover have "fst (?c 4) = Err (UpstreamConnect ''refused'') \<and>
      table (fst (snd (?c 4))) = [demo_app\<lparr>app_address := None, app_state := FAILED\<rparr>]"
  proof -
    have tab: "table demo_mem = [demo_app]" "app_token demo_app = ''t1''" by (simp_all add: demo_mem_def demo_app_def)
    have "fst (?c 4) = Err (UpstreamConnect ''refused'')" by code_simp
    with out [of "(demo_mem, 4)"] show ?thesis by (auto simp: st f tab, rename_tac v, case_tac v) (simp_all add: tab)
  qed
  ultimately show ?thesis by blast
qed

text \<open>C2: isolation of the proxy. A dispatcher forwards a request only if the request carries the
  dispatcher's own token, and only over a connection opened to an address that was recorded for
  that token; every other request is answered with an error, each request exactly once. This
  holds whatever else happens to the database while the dispatcher waits, as long as the
  addresses recorded for the token stay within the set.\<close>

theorem upstream_isolation:
  assumes "app_store db rows"
    and "\<And>k s. addresses_in A token (rows (fst s)) \<Longrightarrow> addresses_in A token (rows (fst (sleep k s)))"
    and "addresses_in A token (rows (fst s))"
    and "upstream_connection db h2 sleep closed token None reqs s = Some (outs, s')"
  shows "list_all (sent_to h2 A token) outs \<and> length outs = length reqs"
  using app_store.upstream_connection_sent_to [OF assms(1,2,3) _ assms(4)] by (simp add: upstream_ok_def)

definition demo_req :: Request where
  "demo_req = \<lparr>req_headers = header_map_of [(''authorization'', ''Bearer t1'')],
     req_path = ''/spark.connect.SparkConnectService/Config'',
     path_and_query = Some ''/spark.connect.SparkConnectService/Config'', req_uri = []\<rparr>"

theorem upstream_isolation_witness:
  "case upstream_connection mem_db demo_h2 (\<lambda>k s. s) (\<lambda>s. False) ''t1'' None
     [demo_req, demo_req\<lparr>req_headers := header_map_of [(''authorization'', ''Bearer t2'')]\<rparr>] (demo_mem, 2) of
     Some ([Forwarded x req rx, Reply e], _) \<Rightarrow>
       e = InvalidAuthorizationToken \<and> sent_to demo_h2 {''h:1''} ''t1'' (Forwarded x req rx)
   | _ \<Rightarrow> False"
proof -
  let ?reqs = "[demo_req, demo_req\<lparr>req_headers := header_map_of [(''authorization'', ''Bearer t2'')]\<rparr>]"
  let ?out = "Forwarded 7 (demo_req\<lparr>req_uri := ''http://h:1/spark.connect.SparkConnectService/Config''\<rparr>) 3"
  have hd: "extract_bearer_token (header_map_of [(''authorization'', ''Bearer t1'')]) = Ok ''t1''"
    "extract_bearer_token (header_map_of [(''authorization'', ''Bearer t2'')]) = Ok ''t2''"
    by code_simp+
  have addr: "resolve_upstream_address mem_db (\<lambda>k s. s) (\<lambda>s. False) ''t1'' (demo_mem, 2) =
      Some (Ok ''h:1'', demo_mem, 2)"
    by (subst resolve_upstream_address.simps)
      (simp add: mem_db_def with_fault_def demo_mem_def demo_app_def by_token_def)
  have h2: "parse_uri demo_h2 = Ok" "h2_ready demo_h2 x n = (Ok (), n)" "h2_send demo_h2 x req n = (3, n)"
    for x req n by (simp_all add: demo_h2_def)
  have con: "connect_with_retries mem_db demo_h2 (\<lambda>k s. s) ''t1'' ''h:1'' (demo_mem, 2) =
      (Ok (7, ''h:1''), demo_mem, 0)" by code_simp
  have run: "upstream_connection mem_db demo_h2 (\<lambda>k s. s) (\<lambda>s. False) ''t1'' None ?reqs (demo_mem, 2) =
      Some ([?out, Reply InvalidAuthorizationToken], demo_mem, 0)"
    by (simp add: upstream_message_def resolve_upstream_connection_def addr con hd forward_request_def
        demo_req_def h2)
  have "addresses_in {''h:1''} ''t1'' (table (fst (demo_mem, 2)))"
    by (simp add: addresses_in_def demo_mem_def demo_app_def)
  from upstream_isolation [OF mem.app_store_axioms _ this run] run show ?thesis by simp
qed

end
