(* ===== verification/Routes.thy ===== *)
theory Routes
  imports Launcher Upstream
begin

text \<open>
  The HTTP API (\<open>server/src/routes.rs\<close>): the handlers, the task that watches a launch, and the
  router with its authorization layers. A handler takes the shared application state and the
  state of the world (database, cache of dispatchers, network and processes) and returns its
  result with the new world. Handlers are modelled one at a time; how their database statements
  interleave is the subject of the theory \<open>Lifecycle\<close>. The parameters of a request are the values
  \<open>axum\<close> has extracted.
\<close>

section \<open>Definitions\<close>

text \<open>The trait \<open>Launcher\<close> and its implementation by \<open>SparkLauncher\<close>.\<close>

record 'n Launcher =
  trait_launch :: "string option \<Rightarrow> int \<Rightarrow> string option \<Rightarrow> string \<Rightarrow> string \<Rightarrow> HashMap \<Rightarrow> string list option
    \<Rightarrow> 'n \<Rightarrow> (JoinHandle, launch_error) Result \<times> 'n"
  trait_get_versions :: "string list"

definition spark_launcher ::
  "host \<Rightarrow> 'n proc_ops \<Rightarrow> (HashMap \<Rightarrow> HashMap) \<Rightarrow> SparkLauncher \<Rightarrow> 'n Launcher" where
  "spark_launcher os ops iter l =
     \<lparr>trait_launch = launch os ops iter l, trait_get_versions = get_versions l\<rparr>"

text \<open>The state shared by the handlers, with the library functions they call: \<open>Uuid::new_v4\<close>,
  the template engine, the HTTP client and \<open>tokio::task::spawn\<close> of the launch watcher.\<close>

record ('d, 'n) AppStateDyn =
  state_db :: "'d db_ops"
  state_launcher :: "'n Launcher"
  state_config :: ProxyConfig
  new_v4 :: "'n \<Rightarrow> string \<times> 'n"
  render_template :: "string \<Rightarrow> string \<Rightarrow> string option"
  state_http :: "'n http_client"
  spawn_watcher :: "int \<Rightarrow> JoinHandle \<Rightarrow> 'n \<Rightarrow> 'n"

type_synonym ('d, 'n) world = "'d \<times> connections \<times> 'n"

record CreateApplicationRequest =
  car_name :: "string option"
  car_version :: "string option"
  car_config :: "HashMap option"
  car_python_packages :: "string list option"

record ListApplicationsRequest =
  lar_state :: "string option"
  lar_created_at_after :: "DateTimeUtc option"
  lar_created_at_before :: "DateTimeUtc option"

record ApplicationInfo =
  info_id :: int
  info_name :: "string option"
  info_token :: string
  info_state :: string
  info_active :: bool
  info_ui_url :: "string option"
  info_log_url :: "string option"

record ApplicationCallbackRequest =
  acr_address :: string
  acr_application_id :: string

datatype handler_error = StatusErr StatusCode | Panicked string

definition application_info ::
  "('d, 'n) AppStateDyn \<Rightarrow> Model \<Rightarrow> (ApplicationInfo, handler_error) Result" where
  "application_info st app =
     (case render_ui_url (render_template st) (state_config st) (application_id app) of
        Err (Panic p) \<Rightarrow> Err (Panicked p)
      | Ok ui_url \<Rightarrow>
     (case render_log_url (render_template st) (state_config st) (application_id app) of
        Err (Panic p) \<Rightarrow> Err (Panicked p)
      | Ok log_url \<Rightarrow>
          Ok \<lparr>info_id = app_id app, info_name = app_name app, info_token = app_token app,
              info_state = to_value (app_state app), info_active = (app_address app \<noteq> None),
              info_ui_url = ui_url, info_log_url = log_url\<rparr>))"

definition new_application :: "string \<Rightarrow> string option \<Rightarrow> string \<Rightarrow> assignment list" where
  "new_application user name token =
     [(ColUsername, VStr user), (ColName, opt_val name), (ColState, VState LAUNCHING),
      (ColToken, VStr token)]"

definition create_app ::
  "('d, 'n) AppStateDyn \<Rightarrow> string \<Rightarrow> CreateApplicationRequest \<Rightarrow> ('d, 'n) world
   \<Rightarrow> (ApplicationInfo, handler_error) Result \<times> ('d, 'n) world" where
  "create_app st user params s =
     (case s of (d, conns, n) \<Rightarrow>
     (case new_v4 st n of (token, n) \<Rightarrow>
     (case db_insert (state_db st) (new_application user (car_name params) token) d of
        (Err e, d) \<Rightarrow> (Err (StatusErr INTERNAL_SERVER_ERROR), d, conns, n)
      | (Ok res, d) \<Rightarrow>
     (case trait_launch (state_launcher st) (car_version params) (app_id res) (car_name params) user
             token (unwrap_or (car_config params) []) (car_python_packages params) n of
        (Err (LaunchPanic p), n) \<Rightarrow> (Err (Panicked p), d, conns, n)
      | (Err (LaunchIo e), n) \<Rightarrow>
          (case db_update (state_db st) (app_id res) [(ColState, VState FAILED)] d of
             (_, d) \<Rightarrow> (Err (StatusErr INTERNAL_SERVER_ERROR), d, conns, n))
      | (Ok child, n) \<Rightarrow>
          let n = spawn_watcher st (app_id res) child n
          in (application_info st res, d, conns, n)))))"

text \<open>What the watcher does once the launch has ended.\<close>

definition launch_watcher :: "'d db_ops \<Rightarrow> int \<Rightarrow> 'd \<Rightarrow> (nat, DbErr) Result \<times> 'd" where
  "launch_watcher db res_id d =
     db_update_many db [(ColState, VState FAILED)]
       [CEq ColId (VInt res_id), CEq ColState (VState LAUNCHING)] d"

definition of_user :: "string \<Rightarrow> int \<Rightarrow> cond list" where
  "of_user user i = [CEq ColUsername (VStr user), CEq ColId (VInt i)]"

definition get_app ::
  "('d, 'n) AppStateDyn \<Rightarrow> int \<Rightarrow> string \<Rightarrow> ('d, 'n) world
   \<Rightarrow> (ApplicationInfo, handler_error) Result \<times> ('d, 'n) world" where
  "get_app st aid user s =
     (case s of (d, conns, n) \<Rightarrow>
     (case db_one (state_db st) (of_user user aid) d of
        (Err e, d) \<Rightarrow> (Err (StatusErr INTERNAL_SERVER_ERROR), d, conns, n)
      | (Ok None, d) \<Rightarrow> (Err (StatusErr NOT_FOUND), d, conns, n)
      | (Ok (Some app), d) \<Rightarrow> (application_info st app, d, conns, n)))"

fun parse_states :: "string list \<Rightarrow> (State list, StatusCode) Result" where
  "parse_states [] = Ok []"
| "parse_states (state # rest) =
     (let state = trim state
      in if state = [] then parse_states rest
         else (case try_from_value state of
                 Err _ \<Rightarrow> Err BAD_REQUEST
               | Ok parsed \<Rightarrow>
                   (case parse_states rest of
                      Err e \<Rightarrow> Err e
                    | Ok parsed_states \<Rightarrow> Ok (parsed # parsed_states))))"

definition state_filter :: "string option \<Rightarrow> (cond list, StatusCode) Result" where
  "state_filter opt =
     (case opt of
        None \<Rightarrow> Ok []
      | Some state_filters \<Rightarrow>
          (case parse_states (split_char (CHR '','') state_filters) of
             Err e \<Rightarrow> Err e
           | Ok parsed_states \<Rightarrow>
               Ok (if parsed_states \<noteq> [] then [CIsIn ColState (map VState parsed_states)] else [])))"

definition list_query :: "string \<Rightarrow> ListApplicationsRequest \<Rightarrow> (cond list, StatusCode) Result" where
  "list_query user params =
     (case state_filter (lar_state params) of
        Err e \<Rightarrow> Err e
      | Ok states \<Rightarrow>
          Ok ([CEq ColUsername (VStr user)] @ states
              @ (case lar_created_at_after params of None \<Rightarrow> [] | Some t \<Rightarrow> [CGte ColCreatedAt (VTime t)])
              @ (case lar_created_at_before params of None \<Rightarrow> [] | Some t \<Rightarrow> [CLte ColCreatedAt (VTime t)])))"

fun collect_infos ::
  "('d, 'n) AppStateDyn \<Rightarrow> Model list \<Rightarrow> (ApplicationInfo list, handler_error) Result" where
  "collect_infos st [] = Ok []"
| "collect_infos st (app # apps) =
     and_then (application_info st app) (\<lambda>info.
       and_then (collect_infos st apps) (\<lambda>infos. Ok (info # infos)))"

definition list_apps ::
  "('d, 'n) AppStateDyn \<Rightarrow> string \<Rightarrow> ListApplicationsRequest \<Rightarrow> ('d, 'n) world
   \<Rightarrow> (ApplicationInfo list, handler_error) Result \<times> ('d, 'n) world" where
  "list_apps st user params s =
     (case s of (d, conns, n) \<Rightarrow>
     (case list_query user params of
        Err e \<Rightarrow> (Err (StatusErr e), d, conns, n)
      | Ok query \<Rightarrow>
          (case db_all (state_db st) query d of
             (Err e, d) \<Rightarrow> (Err (StatusErr INTERNAL_SERVER_ERROR), d, conns, n)
           | (Ok apps, d) \<Rightarrow> (collect_infos st apps, d, conns, n))))"

definition finished_assigns :: "assignment list" where
  "finished_assigns = [(ColAddress, VNull), (ColState, VState FINISHED)]"

definition delete_app ::
  "('d, 'n) AppStateDyn \<Rightarrow> int \<Rightarrow> string \<Rightarrow> ('d, 'n) world
   \<Rightarrow> (unit, handler_error) Result \<times> ('d, 'n) world" where
  "delete_app st aid owner s =
     (case s of (d, conns, n) \<Rightarrow>
     (case db_one (state_db st) (of_user owner aid) d of
        (Err e, d) \<Rightarrow> (Err (StatusErr INTERNAL_SERVER_ERROR), d, conns, n)
      | (Ok None, d) \<Rightarrow> (Err (StatusErr NOT_FOUND), d, conns, n)
      | (Ok (Some app), d) \<Rightarrow>
     (case db_update_many (state_db st) finished_assigns
             [CEq ColId (VInt aid), CEq ColUsername (VStr owner)] d of
        (Err e, d) \<Rightarrow> (Err (StatusErr INTERNAL_SERVER_ERROR), d, conns, n)
      | (Ok _, d) \<Rightarrow>
     (case (case app_address app of
              Some address \<Rightarrow>
                (case send_session_message (state_http st) address (app_token app) ''stop'' n of
                   (Err e, n) \<Rightarrow> (Err (StatusErr INTERNAL_SERVER_ERROR), n)
                 | (Ok _, n) \<Rightarrow> (Ok (), n))
            | None \<Rightarrow> (Ok (), n)) of
        (stop_result, n) \<Rightarrow> (stop_result, d, invalidate (app_token app) conns, n)))))"

definition list_versions :: "('d, 'n) AppStateDyn \<Rightarrow> string list" where
  "list_versions st = trait_get_versions (state_launcher st)"

definition running_assigns :: "ApplicationCallbackRequest \<Rightarrow> assignment list" where
  "running_assigns params =
     [(ColAddress, VStr (acr_address params)), (ColState, VState RUNNING),
      (ColApplicationId, VStr (acr_application_id params))]"

definition app_callback ::
  "('d, 'n) AppStateDyn \<Rightarrow> string \<Rightarrow> ApplicationCallbackRequest \<Rightarrow> ('d, 'n) world
   \<Rightarrow> (unit, handler_error) Result \<times> ('d, 'n) world" where
  "app_callback st token params s =
     (case s of (d, conns, n) \<Rightarrow>
     (case db_update_many (state_db st) (running_assigns params) (by_token token) d of
        (Err e, d) \<Rightarrow> (Err (StatusErr INTERNAL_SERVER_ERROR), d, conns, n)
      | (Ok rows_affected, d) \<Rightarrow>
          if rows_affected = 0 then (Err (StatusErr NOT_FOUND), d, conns, n)
          else (Ok (), d, conns, n)))"

definition app_callback_delete ::
  "('d, 'n) AppStateDyn \<Rightarrow> string \<Rightarrow> ('d, 'n) world
   \<Rightarrow> (unit, handler_error) Result \<times> ('d, 'n) world" where
  "app_callback_delete st token s =
     (case s of (d, conns, n) \<Rightarrow>
     (case db_update_many (state_db st) finished_assigns (by_token token) d of
        (Err e, d) \<Rightarrow> (Err (StatusErr INTERNAL_SERVER_ERROR), d, conns, n)
      | (Ok rows_affected, d) \<Rightarrow>
          if rows_affected = 0 then (Err (StatusErr NOT_FOUND), d, conns, n)
          else (Ok (), d, invalidate token conns, n)))"

subsection \<open>The router\<close>

text \<open>A request that \<open>axum\<close> has matched to a route, with its extracted parameters, and an
  answer.\<close>

datatype api_call =
    ListApps ListApplicationsRequest
  | CreateApp CreateApplicationRequest
  | GetApp int
  | DeleteApp int
  | ListVersions
  | AppCallback ApplicationCallbackRequest
  | AppCallbackDelete

datatype api_answer =
    AnInfo ApplicationInfo
  | Infos "ApplicationInfo list"
  | Versions "string list"
  | Empty

fun call_route :: "api_call \<Rightarrow> string \<times> string" where
  "call_route (ListApps _) = (''GET'', ''/apps'')"
| "call_route (CreateApp _) = (''POST'', ''/apps'')"
| "call_route (GetApp _) = (''GET'', ''/apps/{app_id}'')"
| "call_route (DeleteApp _) = (''DELETE'', ''/apps/{app_id}'')"
| "call_route ListVersions = (''GET'', ''/versions'')"
| "call_route (AppCallback _) = (''POST'', ''/callback'')"
| "call_route AppCallbackDelete = (''DELETE'', ''/callback'')"

fun map_answer :: "('a \<Rightarrow> 'b) \<Rightarrow> ('a, 'e) Result \<times> 's \<Rightarrow> ('b, 'e) Result \<times> 's" where
  "map_answer f (Ok x, s) = (Ok (f x), s)"
| "map_answer f (Err e, s) = (Err e, s)"

fun user_api ::
  "('d, 'n) AppStateDyn \<Rightarrow> string \<Rightarrow> api_call \<Rightarrow> ('d, 'n) world
   \<Rightarrow> (api_answer, handler_error) Result \<times> ('d, 'n) world" where
  "user_api st user (ListApps params) s = map_answer Infos (list_apps st user params s)"
| "user_api st user (CreateApp params) s = map_answer AnInfo (create_app st user params s)"
| "user_api st user (GetApp i) s = map_answer AnInfo (get_app st i user s)"
| "user_api st user (DeleteApp i) s = map_answer (\<lambda>_. Empty) (delete_app st i user s)"
| "user_api st user ListVersions s = (Ok (Versions (list_versions st)), s)"
| "user_api st user _ s = (Err (StatusErr NOT_FOUND), s)"

fun callback_api ::
  "('d, 'n) AppStateDyn \<Rightarrow> string \<Rightarrow> api_call \<Rightarrow> ('d, 'n) world
   \<Rightarrow> (api_answer, handler_error) Result \<times> ('d, 'n) world" where
  "callback_api st token (AppCallback params) s =
     map_answer (\<lambda>_. Empty) (app_callback st token params s)"
| "callback_api st token AppCallbackDelete s =
     map_answer (\<lambda>_. Empty) (app_callback_delete st token s)"
| "callback_api st token _ s = (Err (StatusErr NOT_FOUND), s)"

definition is_callback :: "api_call \<Rightarrow> bool" where
  "is_callback call \<longleftrightarrow> snd (call_route call) = ''/callback''"

text \<open>The authorization layers answer in place of the handler when they reject.\<close>

definition get_router ::
  "('key, 'alg) auth_ops \<Rightarrow> ('key, 'alg) UserAuthMethod list \<Rightarrow> ('d, 'n) AppStateDyn \<Rightarrow> HeaderMap
   \<Rightarrow> api_call \<Rightarrow> ('d, 'n) world \<Rightarrow> (api_answer, handler_error) Result \<times> ('d, 'n) world" where
  "get_router ops user_auth st headers call s =
     (if is_callback call then
        (case TokenAuth_authorize headers of
           Err code \<Rightarrow> (Err (StatusErr code), s)
         | Ok token \<Rightarrow> callback_api st token call s)
      else
        (case UserAuth_authorize ops user_auth headers of
           Err code \<Rightarrow> (Err (StatusErr code), s)
         | Ok user \<Rightarrow> user_api st user call s))"

section \<open>Vocabulary of the properties\<close>

text \<open>The rows a listing asks for, read from the query string directly.\<close>

definition state_names :: "string \<Rightarrow> string list" where
  "state_names fs = filter (\<lambda>s. s \<noteq> []) (map trim (split_char (CHR '','') fs))"

definition wanted :: "ListApplicationsRequest \<Rightarrow> Model \<Rightarrow> bool" where
  "wanted params m \<longleftrightarrow>
     (case lar_state params of
        None \<Rightarrow> True
      | Some fs \<Rightarrow> state_names fs = [] \<or> to_value (app_state m) \<in> set (state_names fs)) \<and>
     (case lar_created_at_after params of None \<Rightarrow> True | Some t \<Rightarrow> t \<le> created_at m) \<and>
     (case lar_created_at_before params of None \<Rightarrow> True | Some t \<Rightarrow> created_at m \<le> t)"

definition state_name :: "string \<Rightarrow> bool" where
  "state_name s \<longleftrightarrow> s \<in> {''LAUNCHING'', ''RUNNING'', ''FAILED'', ''FINISHED''}"

definition owns :: "string \<Rightarrow> int \<Rightarrow> Model \<Rightarrow> bool" where
  "owns user i m \<longleftrightarrow> username m = user \<and> app_id m = i"

text \<open>The configured templates are accepted by the template engine.\<close>

definition templates_render :: "('d, 'n) AppStateDyn \<Rightarrow> bool" where
  "templates_render st \<longleftrightarrow>
     (\<forall>t a. Some t \<in> {ui_url_template (state_config st), log_url_template (state_config st)} \<longrightarrow>
        render_template st t a \<noteq> None)"

text \<open>The description of an application: its link is the rendered template once the Spark application is
  known.\<close>

definition app_link :: "('d, 'n) AppStateDyn \<Rightarrow> string option \<Rightarrow> Model \<Rightarrow> string option" where
  "app_link st template m =
     (if template = None \<or> application_id m \<in> {None, Some []} then None
      else render_template st (the template) (the (application_id m)))"

definition described :: "('d, 'n) AppStateDyn \<Rightarrow> Model \<Rightarrow> ApplicationInfo" where
  "described st m =
     \<lparr>info_id = app_id m, info_name = app_name m, info_token = app_token m,
      info_state = to_value (app_state m), info_active = (app_address m \<noteq> None),
      info_ui_url = app_link st (ui_url_template (state_config st)) m,
      info_log_url = app_link st (log_url_template (state_config st)) m\<rparr>"

text \<open>The tokens an answer reveals.\<close>

fun disclosed :: "(api_answer, handler_error) Result \<Rightarrow> string list" where
  "disclosed (Ok (AnInfo info)) = [info_token info]"
| "disclosed (Ok (Infos infos)) = map info_token infos"
| "disclosed _ = []"

section \<open>Lemmas\<close>

lemma state_name_iff: "state_name s \<longleftrightarrow> (\<exists>st. s = to_value st)"
proof
  assume "state_name s"
  then consider "s = to_value LAUNCHING" | "s = to_value RUNNING" | "s = to_value FAILED"
    | "s = to_value FINISHED" by (auto simp: state_name_def)
  then show "\<exists>st. s = to_value st" by cases blast+
next
  assume "\<exists>st. s = to_value st"
  then obtain st where "s = to_value st" ..
  then show "state_name s" by (cases st) (simp_all add: state_name_def)
qed

lemma inj_to_value: "to_value a = to_value b \<longleftrightarrow> a = b"
  by (metis Result.inject(1) try_from_to_value)

lemma parse_states_Ok_iff:
  "parse_states ss = Ok sts \<longleftrightarrow> map to_value sts = filter (\<lambda>s. s \<noteq> []) (map trim ss)"
proof (induction ss arbitrary: sts)
  case (Cons s ss)
  show ?case
  proof (cases "trim s = []")
    case False
    show ?thesis
    proof (cases "try_from_value (trim s)")
      case (Ok st)
      then have "trim s = to_value st" by (simp add: try_from_value_Ok)
      with False Ok Cons.IH show ?thesis
        by (cases sts; cases "parse_states ss") (auto simp: inj_to_value)
    next
      case (Err e)
      then have "trim s \<noteq> to_value st" for st using try_from_value_Ok [of "trim s" st] by auto
      with False Err show ?thesis by (cases sts) (auto dest: sym)
    qed
  qed (use Cons in \<open>simp add: Let_def\<close>)
qed auto

lemma parse_states_Err: "parse_states ss = Err e \<Longrightarrow> e = BAD_REQUEST"
  by (induction ss) (auto simp: Let_def split: if_splits Result.splits)

lemma parse_states_is_ok:
  "is_ok (parse_states ss) \<longleftrightarrow> list_all state_name (filter (\<lambda>s. s \<noteq> []) (map trim ss))"
proof -
  have "is_ok (parse_states ss) \<longleftrightarrow> (\<exists>sts. filter (\<lambda>s. s \<noteq> []) (map trim ss) = map to_value sts)"
    by (auto simp: is_ok_iff parse_states_Ok_iff) metis+
  also have "\<dots> \<longleftrightarrow> list_all state_name (filter (\<lambda>s. s \<noteq> []) (map trim ss))"
    unfolding list_all_iff state_name_iff ex_map_conv [symmetric] by blast
  finally show ?thesis .
qed

lemma holds_all_of_user [simp]: "holds_all (of_user user i) m \<longleftrightarrow> owns user i m"
  by (auto simp: of_user_def owns_def)

lemma list_query_Ok:
  assumes "list_query user params = Ok q"
  shows "holds_all q m \<longleftrightarrow> username m = user \<and> wanted params m"
proof -
  obtain cs where cs: "state_filter (lar_state params) = Ok cs"
    using assms by (auto simp: list_query_def split: Result.splits)
  have st: "holds_all cs m \<longleftrightarrow>
     (case lar_state params of None \<Rightarrow> True
      | Some fs \<Rightarrow> state_names fs = [] \<or> to_value (app_state m) \<in> set (state_names fs))"
  proof (cases "lar_state params")
    case (Some fs)
    with cs obtain sts where sts: "parse_states (split_char (CHR '','') fs) = Ok sts"
      "cs = (if sts \<noteq> [] then [CIsIn ColState (map VState sts)] else [])"
      by (auto simp: state_filter_def split: Result.splits)
    then have "state_names fs = map to_value sts" by (simp add: state_names_def parse_states_Ok_iff)
    with sts(2) Some show ?thesis by (auto simp: inj_to_value)
  qed (use cs in \<open>simp add: state_filter_def\<close>)
  show ?thesis
    using assms cs st by (auto simp: list_query_def wanted_def split: option.splits)
qed

lemma list_query_Err: "list_query user params = Err e \<Longrightarrow> e = BAD_REQUEST"
  by (auto simp: list_query_def state_filter_def parse_states_Err split: Result.splits option.splits)

lemma list_query_is_ok:
  "is_ok (list_query user params) \<longleftrightarrow>
     (case lar_state params of None \<Rightarrow> True | Some fs \<Rightarrow> list_all state_name (state_names fs))"
  by (auto simp: list_query_def state_filter_def state_names_def parse_states_is_ok [symmetric]
      split: Result.splits option.splits)

lemma application_info_launching:
  assumes "application_id m = None"
  shows "application_info st m = Ok \<lparr>info_id = app_id m, info_name = app_name m,
     info_token = app_token m, info_state = to_value (app_state m),
     info_active = (app_address m \<noteq> None), info_ui_url = None, info_log_url = None\<rparr>"
  using assms by (simp add: application_info_def)

lemma application_info_Err: "application_info st m = Err e \<Longrightarrow> \<exists>p. e = Panicked p"
  by (auto simp: application_info_def split: Result.splits panic.splits)

lemma render_url_link:
  assumes "templates_render st" and "tpl \<in> {ui_url_template (state_config st), log_url_template (state_config st)}"
  shows "render_url (render_template st) tpl (application_id m) = Ok (app_link st tpl m)"
proof (cases tpl)
  case (Some t)
  have ne: "render_template st t a \<noteq> None" for a
    using assms unfolding templates_render_def Some by blast
  have "(case render_template st t a of None \<Rightarrow> Err e | Some x \<Rightarrow> Ok (Some x)) = Ok (render_template st t a)" for a and e :: panic
    using ne [of a] by (auto split: option.split)
  with Some show ?thesis by (cases "application_id m") (simp_all add: render_url_def app_link_def)
qed (simp add: render_url_def app_link_def)

lemma application_info_described:
  assumes "templates_render st"
  shows "application_info st m = Ok (described st m)"
  by (simp add: application_info_def render_ui_url_def render_log_url_def render_url_link [OF assms] described_def)

lemma collect_infos_described: "templates_render st \<Longrightarrow> collect_infos st ms = Ok (map (described st) ms)"
  by (induction ms) (simp_all add: application_info_described)

lemma collect_infos_Ok_iff:
  "collect_infos st ms = Ok infos \<longleftrightarrow> map (application_info st) ms = map Ok infos"
proof (induction ms arbitrary: infos)
  case (Cons m ms)
  then show ?case by (cases infos) auto
qed auto

lemma collect_infos_Err: "collect_infos st ms = Err e \<Longrightarrow> \<exists>p. e = Panicked p"
proof (induction ms)
  case (Cons m ms)
  then show ?case
    using application_info_Err
    by (cases "application_info st m"; cases "collect_infos st ms") auto
qed simp

lemma new_row:
  "set_cols (filter (\<lambda>a. fst a \<noteq> ColId) (new_application user name token)) (blank_row i t) =
     \<lparr>app_id = i, created_at = t, username = user, app_name = name, app_state = LAUNCHING,
      app_token = token, app_address = None, application_id = None\<rparr>"
  by (cases name) (simp_all add: new_application_def blank_row_def)

context app_store
begin

lemma get_app_cases:
  assumes "state_db st = db" and "get_app st i u (d, c, n) = (r, d', c', n')"
  shows "rows d' = rows d \<and> c' = c \<and> n' = n \<and>
     (r = Err (StatusErr INTERNAL_SERVER_ERROR) \<or>
      r = Err (StatusErr NOT_FOUND) \<and> \<not> list_ex (owns u i) (rows d) \<or>
      (\<exists>m \<in> set (rows d). owns u i m \<and> r = application_info st m))"
proof -
  obtain q d1 where q: "db_one db (of_user u i) d = (q, d1)" by (rule prod.exhaust)
  note rows = one_rows [OF q]
  consider (e) e where "q = Err e" | (none) "q = Ok None" | (some) m where "q = Ok (Some m)"
    by (cases q; cases "ok_val q") auto
  then show ?thesis
  proof cases
    case e
    with assms q rows show ?thesis by (auto simp: get_app_def)
  next
    case none
    with one_NoneD [of "of_user u i" d d1] q have "\<not> list_ex (owns u i) (rows d)"
      by (auto simp: list_ex_iff)
    with assms q rows none show ?thesis by (auto simp: get_app_def)
  next
    case (some m)
    with one_SomeD [of "of_user u i" d m d1] q have "m \<in> set (rows d)" "owns u i m" by auto
    moreover have "r = application_info st m \<and> d' = d1 \<and> c' = c \<and> n' = n"
      using assms q some by (simp add: get_app_def)
    ultimately show ?thesis using rows by blast
  qed
qed

text \<open>The outcomes of creating an application.\<close>

lemma create_app_outcomes:
  assumes st: "state_db st = db" and c: "create_app st u params (d, c, n) = (r, d', c', n')"
    and uuid: "new_v4 st n = (token, n0)"
  obtains (refused) e where "db_insert db (new_application u (car_name params) token) d = (Err e, d')"
      "r = Err (StatusErr INTERNAL_SERVER_ERROR)" "rows d' = rows d" "c' = c" "n' = n0"
    | (inserted) i t m d1 l n1 where "i \<notin> app_id ` set (rows d)"
      "m = \<lparr>app_id = i, created_at = t, username = u, app_name = car_name params,
         app_state = LAUNCHING, app_token = token, app_address = None, application_id = None\<rparr>"
      "db_insert db (new_application u (car_name params) token) d = (Ok m, d1)" "rows d1 = rows d @ [m]" "c' = c"
      "trait_launch (state_launcher st) (car_version params) i (car_name params) u token
         (unwrap_or (car_config params) []) (car_python_packages params) n0 = (l, n1)"
      "case l of
         Ok child \<Rightarrow> r = application_info st m \<and> d' = d1 \<and> n' = spawn_watcher st i child n1
       | Err (LaunchIo e) \<Rightarrow> r = Err (StatusErr INTERNAL_SERVER_ERROR) \<and> n' = n1 \<and>
           (\<exists>v. db_update db i [(ColState, VState FAILED)] d1 = (v, d') \<and>
                rows d' = rows d @ [if is_ok v then m\<lparr>app_state := FAILED\<rparr> else m])
       | Err (LaunchPanic p) \<Rightarrow> r = Err (Panicked p) \<and> d' = d1 \<and> n' = n1"
proof -
  let ?as = "new_application u (car_name params) token"
  obtain q d1 where q: "db_insert db ?as d = (q, d1)" by (rule prod.exhaust)
  show thesis
  proof (cases q)
    case (Err e)
    with st c uuid q insert_ErrD [of ?as d e d1] show thesis
      by (intro refused) (auto simp: create_app_def)
  next
    case (Ok m)
    note ins = insert_OkD [OF q [unfolded Ok]]
    from ins(2) obtain i t where i: "i \<notin> app_id ` set (rows d)"
      and m: "m = \<lparr>app_id = i, created_at = t, username = u, app_name = car_name params,
         app_state = LAUNCHING, app_token = token, app_address = None, application_id = None\<rparr>"
      unfolding new_row by blast
    obtain l n1 where l: "trait_launch (state_launcher st) (car_version params) i (car_name params) u token
         (unwrap_or (car_config params) []) (car_python_packages params) n0 = (l, n1)" by (rule prod.exhaust)
    have id: "app_id m = i" using m by simp
    obtain v d2 where v: "db_update db i [(ColState, VState FAILED)] d1 = (v, d2)" by (rule prod.exhaust)
    have rows2: "rows d2 = rows d @ [if is_ok v then m\<lparr>app_state := FAILED\<rparr> else m]"
      using update_OkD [of i _ d1 _ d2] update_ErrD [of i _ d1 _ d2] v ins(1) i
      by (cases v) (auto simp: update_rows_fresh id)
    have run: "(r, d', c', n') =
        (case l of
           Err (LaunchPanic p) \<Rightarrow> (Err (Panicked p), d1, c, n1)
         | Err (LaunchIo e) \<Rightarrow> (Err (StatusErr INTERNAL_SERVER_ERROR), d2, c, n1)
         | Ok child \<Rightarrow> (application_info st m, d1, c, spawn_watcher st i child n1))"
      using c by (cases l; cases "err_val l") (auto simp: create_app_def st uuid q Ok id l v Let_def)
    show thesis
    proof (rule inserted [OF i m q [unfolded Ok] ins(1) _ l])
      show "c' = c" using run by (cases l; cases "err_val l") auto
      show "case l of
         Ok child \<Rightarrow> r = application_info st m \<and> d' = d1 \<and> n' = spawn_watcher st i child n1
       | Err (LaunchIo e) \<Rightarrow> r = Err (StatusErr INTERNAL_SERVER_ERROR) \<and> n' = n1 \<and>
           (\<exists>v. db_update db i [(ColState, VState FAILED)] d1 = (v, d') \<and>
                rows d' = rows d @ [if is_ok v then m\<lparr>app_state := FAILED\<rparr> else m])
       | Err (LaunchPanic p) \<Rightarrow> r = Err (Panicked p) \<and> d' = d1 \<and> n' = n1"
        using run v rows2 by (cases l; cases "err_val l") auto
    qed
  qed
qed

text \<open>The same, as far as the rows are concerned.\<close>

lemma create_app_cases:
  assumes st: "state_db st = db" and c: "create_app st u params (d, c, n) = (r, d', c', n')"
    and uuid: "new_v4 st n = (token, n0)"
  obtains (refused) "r = Err (StatusErr INTERNAL_SERVER_ERROR)" "rows d' = rows d" "c' = c"
    | (inserted) i t m l where "i \<notin> app_id ` set (rows d)"
      "m = \<lparr>app_id = i, created_at = t, username = u, app_name = car_name params,
         app_state = LAUNCHING, app_token = token, app_address = None, application_id = None\<rparr>"
      "c' = c"
      "l = fst (trait_launch (state_launcher st) (car_version params) i (car_name params) u token
         (unwrap_or (car_config params) []) (car_python_packages params) n0)"
      "case l of
         Ok child \<Rightarrow> r = application_info st m \<and> rows d' = rows d @ [m]
       | Err (LaunchIo e) \<Rightarrow> r = Err (StatusErr INTERNAL_SERVER_ERROR) \<and>
           (rows d' = rows d @ [m\<lparr>app_state := FAILED\<rparr>] \<or> rows d' = rows d @ [m])
       | Err (LaunchPanic p) \<Rightarrow> r = Err (Panicked p) \<and> rows d' = rows d @ [m]"
  using assms
proof (cases rule: create_app_outcomes)
  case (refused e)
  then show thesis by (intro that(1))
next
  case (inserted i t m d1 l n1)
  show thesis
  proof (rule that(2) [OF inserted(1,2,5)])
    show "l = fst (trait_launch (state_launcher st) (car_version params) i (car_name params) u token
         (unwrap_or (car_config params) []) (car_python_packages params) n0)" by (simp add: inserted(6))
    show "case l of
         Ok child \<Rightarrow> r = application_info st m \<and> rows d' = rows d @ [m]
       | Err (LaunchIo e) \<Rightarrow> r = Err (StatusErr INTERNAL_SERVER_ERROR) \<and>
           (rows d' = rows d @ [m\<lparr>app_state := FAILED\<rparr>] \<or> rows d' = rows d @ [m])
       | Err (LaunchPanic p) \<Rightarrow> r = Err (Panicked p) \<and> rows d' = rows d @ [m]"
      using inserted(4,7) by (cases l; cases "err_val l") auto
  qed
qed

lemma create_app_OkD:
  assumes "state_db st = db" and "create_app st u params (d, c, n) = (Ok info, d', c', n')"
    and uuid: "new_v4 st n = (token, n0)"
  shows "\<exists>m child n1. app_id m \<notin> app_id ` set (rows d) \<and> username m = u \<and> app_token m = token \<and>
     app_state m = LAUNCHING \<and> rows d' = rows d @ [m] \<and> application_info st m = Ok info \<and>
     trait_launch (state_launcher st) (car_version params) (app_id m) (car_name params) u token
       (unwrap_or (car_config params) []) (car_python_packages params) n0 = (Ok child, n1) \<and>
     n' = spawn_watcher st (app_id m) child n1"
  using assms
proof (cases rule: create_app_outcomes)
  case (inserted i t m d1 l n1)
  have m: "app_id m = i" "username m = u" "app_token m = token" "app_state m = LAUNCHING"
    using inserted(2) by simp_all
  obtain child where l: "l = Ok child" using inserted(7) by (cases l; cases "err_val l") auto
  with inserted(7) have "d' = d1" "application_info st m = Ok info" "n' = spawn_watcher st i child n1" by simp_all
  with inserted(1,4,6) l m show ?thesis by (intro exI [of _ m] exI [of _ child] exI [of _ n1]) simp
qed simp

lemma list_apps_cases:
  assumes "state_db st = db" and "list_apps st u params (d, c, n) = (r, d', c', n')"
  shows "rows d' = rows d \<and> c' = c \<and> n' = n \<and>
     (case list_query u params of
        Err e \<Rightarrow> r = Err (StatusErr BAD_REQUEST)
      | Ok q \<Rightarrow> r = Err (StatusErr INTERNAL_SERVER_ERROR) \<and> \<not> is_ok (fst (db_all db q d)) \<or>
          (\<exists>ms. mset ms = mset (filter (\<lambda>m. username m = u \<and> wanted params m) (rows d)) \<and>
                r = collect_infos st ms))"
proof (cases "list_query u params")
  case (Err e)
  with assms list_query_Err [OF Err] show ?thesis by (auto simp: list_apps_def)
next
  case (Ok q)
  obtain a d1 where a: "db_all db q d = (a, d1)" by (rule prod.exhaust)
  have sel: "matching q (rows d) = filter (\<lambda>m. username m = u \<and> wanted params m) (rows d)"
    unfolding matching_def by (rule filter_cong [OF refl list_query_Ok [OF Ok]])
  show ?thesis
  proof (cases a)
    case (Err e)
    with assms Ok a all_rows [OF a] show ?thesis by (auto simp: list_apps_def)
  next
    case o: (Ok ms)
    from all_OkD(2) [OF a [unfolded o]] sel
    have "mset ms = mset (filter (\<lambda>m. username m = u \<and> wanted params m) (rows d))" by simp
    moreover have "r = collect_infos st ms" "d' = d1" "c' = c" "n' = n"
      using assms Ok a o by (simp_all add: list_apps_def)
    ultimately show ?thesis using Ok all_rows [OF a] by auto
  qed
qed

lemma delete_app_cases:
  assumes st: "state_db st = db" and del: "delete_app st i u (d, c, n) = (r, d', c', n')"
  obtains (db_error) "r = Err (StatusErr INTERNAL_SERVER_ERROR)" "rows d' = rows d" "c' = c" "n' = n"
    | (absent) "r = Err (StatusErr NOT_FOUND)" "\<not> list_ex (owns u i) (rows d)" "rows d' = rows d" "c' = c" "n' = n"
    | (finished) m where "m \<in> set (rows d)" "owns u i m"
      "rows d' = map (\<lambda>m. if owns u i m then m\<lparr>app_address := None, app_state := FINISHED\<rparr> else m) (rows d)"
      "c' = invalidate (app_token m) c"
      "case app_address m of
         None \<Rightarrow> r = Ok () \<and> n' = n
       | Some a \<Rightarrow> (case send_session_message (state_http st) a (app_token m) ''stop'' n of
           (stop, n1) \<Rightarrow> n' = n1 \<and>
             r = (case stop of Ok _ \<Rightarrow> Ok () | Err _ \<Rightarrow> Err (StatusErr INTERNAL_SERVER_ERROR)))"
proof -
  obtain q d1 where q: "db_one db (of_user u i) d = (q, d1)" by (rule prod.exhaust)
  note r1 = one_rows [OF q]
  consider (e) e where "q = Err e" | (none) "q = Ok None" | (some) m where "q = Ok (Some m)"
    by (cases q; cases "ok_val q") auto
  then show thesis
  proof cases
    case e
    with st del q r1 show thesis by (intro db_error) (auto simp: delete_app_def)
  next
    case none
    with one_NoneD [of "of_user u i" d d1] q have "\<not> list_ex (owns u i) (rows d)"
      by (auto simp: list_ex_iff)
    with st del q none r1 show thesis by (intro absent) (auto simp: delete_app_def)
  next
    case (some m)
    let ?cs = "[CEq ColId (VInt i), CEq ColUsername (VStr u)]"
    have m: "m \<in> set (rows d)" "owns u i m"
      using one_SomeD [of "of_user u i" d m d1] q some by auto
    obtain v d2 where v: "db_update_many db finished_assigns ?cs d1 = (v, d2)" by (rule prod.exhaust)
    from v show thesis
    proof (cases rule: update_many_cases)
      case (stmt_failed e)
      with st del q some v r1 show thesis by (intro db_error) (auto simp: delete_app_def)
    next
      case (stmt_done k)
      have "update_rows finished_assigns ?cs (rows d) =
          map (\<lambda>m. if owns u i m then m\<lparr>app_address := None, app_state := FINISHED\<rparr> else m) (rows d)"
        by (auto simp: update_rows_def finished_assigns_def owns_def)
      moreover obtain stop n1 where
        "send_session_message (state_http st) (the (app_address m)) (app_token m) ''stop'' n = (stop, n1)"
        by (rule prod.exhaust)
      ultimately show thesis
        using st del q some v r1 stmt_done
        by (intro finished [OF m]) (auto simp: delete_app_def split: option.splits Result.splits)
    qed
  qed
qed

text \<open>The two callback handlers are one conditional update of the rows of the token.\<close>

lemma update_token_cases:
  assumes "db_update_many db as (by_token t) d = (r, d')"
  obtains (updated) n where "r = Ok n" "n = length (filter (\<lambda>m. app_token m = t) (rows d))"
      "rows d' = map (\<lambda>m. if app_token m = t then set_cols as m else m) (rows d)"
    | (db_error) e where "r = Err e" "rows d' = rows d"
  using assms
proof (cases rule: update_many_cases)
  case (stmt_done n)
  have sel: "holds_all (by_token t) = (\<lambda>m. app_token m = t)" by (auto simp: by_token_def)
  from stmt_done show ?thesis
    by (intro updated) (simp_all add: update_rows_def matching_def sel)
qed (intro db_error)

lemma app_callback_cases:
  assumes "state_db st = db" and "app_callback st t params (d, c, n) = (r, d', c', n')"
  shows "c' = c \<and> n' = n \<and>
     (r = Err (StatusErr INTERNAL_SERVER_ERROR) \<and> rows d' = rows d \<or>
      r = Err (StatusErr NOT_FOUND) \<and> t \<notin> app_token ` set (rows d) \<and> rows d' = rows d \<or>
      r = Ok () \<and> t \<in> app_token ` set (rows d) \<and>
      rows d' = map (\<lambda>m. if app_token m = t
         then m\<lparr>app_address := Some (acr_address params), app_state := RUNNING,
                application_id := Some (acr_application_id params)\<rparr> else m) (rows d))"
proof -
  obtain v d1 where v: "db_update_many db (running_assigns params) (by_token t) d = (v, d1)"
    by (rule prod.exhaust)
  then show ?thesis
  proof (cases rule: update_token_cases)
    case (updated k)
    have k: "k = 0 \<longleftrightarrow> t \<notin> app_token ` set (rows d)" by (auto simp: updated(2) filter_empty_conv)
    have same: "map (\<lambda>m. if app_token m = t then f m else m) (rows d) = rows d"
      if "k = 0" for f :: "Model \<Rightarrow> Model" using that k by (intro map_idI) auto
    show ?thesis
      using assms v updated(1,3) k same
      by (auto simp: app_callback_def running_assigns_def)
  qed (use assms v in \<open>auto simp: app_callback_def\<close>)
qed

lemma app_callback_delete_cases:
  assumes "state_db st = db" and "app_callback_delete st t (d, c, n) = (r, d', c', n')"
  shows "n' = n \<and>
     (r = Err (StatusErr INTERNAL_SERVER_ERROR) \<and> rows d' = rows d \<and> c' = c \<or>
      r = Err (StatusErr NOT_FOUND) \<and> t \<notin> app_token ` set (rows d) \<and> rows d' = rows d \<and> c' = c \<or>
      r = Ok () \<and> t \<in> app_token ` set (rows d) \<and> c' = invalidate t c \<and>
      rows d' = map (\<lambda>m. if app_token m = t
         then m\<lparr>app_address := None, app_state := FINISHED\<rparr> else m) (rows d))"
proof -
  obtain v d1 where v: "db_update_many db finished_assigns (by_token t) d = (v, d1)"
    by (rule prod.exhaust)
  then show ?thesis
  proof (cases rule: update_token_cases)
    case (updated k)
    have k: "k = 0 \<longleftrightarrow> t \<notin> app_token ` set (rows d)" by (auto simp: updated(2) filter_empty_conv)
    have same: "map (\<lambda>m. if app_token m = t then f m else m) (rows d) = rows d"
      if "k = 0" for f :: "Model \<Rightarrow> Model" using that k by (intro map_idI) auto
    show ?thesis
      using assms v updated(1,3) k same
      by (auto simp: app_callback_delete_def finished_assigns_def)
  qed (use assms v in \<open>auto simp: app_callback_delete_def\<close>)
qed

end

lemma application_info_Ok:
  "application_info st m = Ok info \<Longrightarrow>
   info_id info = app_id m \<and> info_name info = app_name m \<and> info_token info = app_token m \<and>
   info_state info = to_value (app_state m) \<and> info_active info = (app_address m \<noteq> None)"
  by (auto simp: application_info_def split: Result.splits panic.splits)

lemma map_answer_iff:
  "map_answer f x = (r, s) \<longleftrightarrow> snd x = s \<and> r = (case fst x of Ok v \<Rightarrow> Ok (f v) | Err e \<Rightarrow> Err e)"
  by (cases x; cases "fst x") auto

lemma not_callback_cases:
  assumes "\<not> is_callback call"
  obtains (list_c) params where "call = ListApps params" | (create_c) params where "call = CreateApp params"
    | (get_c) i where "call = GetApp i" | (delete_c) i where "call = DeleteApp i" | (versions_c) "call = ListVersions"
  using assms by (cases call) (auto simp: is_callback_def)

lemma collect_infos_tokens:
  assumes "collect_infos st ms = Ok infos"
  shows "map info_token infos = map app_token ms"
proof -
  have "list_all2 (\<lambda>m info. application_info st m = Ok info) ms infos"
    using assms by (auto simp: collect_infos_Ok_iff list_all2_conv_all_nth list_eq_iff_nth_eq)
  then have "list_all2 (\<lambda>m info. app_token m = info_token info) ms infos"
    by (rule list_all2_mono) (use application_info_Ok in fastforce)
  then show ?thesis by (auto simp: list_all2_conv_all_nth list_eq_iff_nth_eq)
qed

context app_store
begin

abbreviation tokens_of :: "string \<Rightarrow> 'd \<Rightarrow> string set" where
  "tokens_of u d \<equiv> app_token ` {m \<in> set (rows d). username m = u}"

lemma user_api_frame:
  assumes st: "state_db st = db" and call: "\<not> is_callback call"
    and run: "user_api st u call (d, c, n) = (r, d', c', n')"
  shows "filter (\<lambda>m. username m \<noteq> u) (rows d') = filter (\<lambda>m. username m \<noteq> u) (rows d) \<and>
     set (disclosed r) \<subseteq> tokens_of u d'"
  using call
proof (cases rule: not_callback_cases)
  case (list_c params)
  obtain x where x: "list_apps st u params (d, c, n) = (x, d', c', n')"
    and r: "r = (case x of Ok v \<Rightarrow> Ok (Infos v) | Err e \<Rightarrow> Err e)"
    using run list_c by (cases "list_apps st u params (d, c, n)") (auto simp: map_answer_iff)
  note ls = list_apps_cases [OF st x]
  have "set (disclosed r) \<subseteq> tokens_of u d'"
  proof (cases x)
    case (Ok infos)
    with ls obtain ms where ms: "mset ms = mset (filter (\<lambda>m. username m = u \<and> wanted params m) (rows d))"
      and "collect_infos st ms = Ok infos" by (auto split: Result.splits)
    with ls Ok r show ?thesis using mset_eq_setD [OF ms] by (auto simp: collect_infos_tokens)
  qed (simp add: r)
  with ls show ?thesis by simp
next
  case (create_c params)
  obtain x where x: "create_app st u params (d, c, n) = (x, d', c', n')"
    and r: "r = (case x of Ok v \<Rightarrow> Ok (AnInfo v) | Err e \<Rightarrow> Err e)"
    using run create_c by (cases "create_app st u params (d, c, n)") (auto simp: map_answer_iff)
  obtain token n0 where uuid: "new_v4 st n = (token, n0)" by (rule prod.exhaust)
  from st x uuid show ?thesis
  proof (cases rule: create_app_cases)
    case refused
    then show ?thesis by (simp add: r)
  next
    case (inserted i t m l)
    have "application_id m = None" "username m = u" using inserted(2) by simp_all
    with inserted(5) r application_info_launching [of m st] show ?thesis
      by (cases l; cases "err_val l"; cases x) auto
  qed
next
  case (get_c i)
  obtain x where x: "get_app st i u (d, c, n) = (x, d', c', n')"
    and r: "r = (case x of Ok v \<Rightarrow> Ok (AnInfo v) | Err e \<Rightarrow> Err e)"
    using run get_c by (cases "get_app st i u (d, c, n)") (auto simp: map_answer_iff)
  from get_app_cases [OF st x] r application_info_Ok [of st] show ?thesis
    by (cases x) (auto simp: owns_def)
next
  case (delete_c i)
  obtain x where x: "delete_app st i u (d, c, n) = (x, d', c', n')"
    and r: "r = (case x of Ok v \<Rightarrow> Ok Empty | Err e \<Rightarrow> Err e)"
    using run delete_c by (cases "delete_app st i u (d, c, n)") (auto simp: map_answer_iff)
  have none: "disclosed r = []" using r by (cases x) auto
  from st x show ?thesis
  proof (cases rule: delete_app_cases)
    case (finished m)
    have "filter (\<lambda>m. username m \<noteq> u)
        (map (\<lambda>m. if owns u i m then m\<lparr>app_address := None, app_state := FINISHED\<rparr> else m) ms) =
        filter (\<lambda>m. username m \<noteq> u) ms" for ms :: "Model list"
      by (induction ms) (auto simp: owns_def)
    with finished(3) none show ?thesis by simp
  qed (simp_all add: none)
next
  case versions_c
  with run show ?thesis by auto
qed

end

section \<open>Properties\<close>

text \<open>C1: tenant isolation of the user API. Whatever an authenticated user \<open>u\<close> calls, with whatever
  arguments, the rows of all other users stay exactly as they are, and every token in the answer
  belongs to an application of \<open>u\<close>.\<close>

theorem user_isolation:
  assumes "app_store (state_db st) rows" and "\<not> is_callback call"
    and "UserAuth_authorize ops user_auth headers = Ok u"
    and "get_router ops user_auth st headers call (d, c, n) = (r, d', c', n')"
  shows "filter (\<lambda>m. username m \<noteq> u) (rows d') = filter (\<lambda>m. username m \<noteq> u) (rows d) \<and>
     set (disclosed r) \<subseteq> app_token ` {m \<in> set (rows d'). username m = u}"
  using app_store.user_api_frame [OF assms(1) refl assms(2)] assms(2-4) by (simp add: get_router_def)

text \<open>A request that its authorization layer rejects reaches no handler: nothing changes, and
  the answer is 401 or, for an unreadable header on a callback route, 400.\<close>

lemma unauthorized_no_effect:
  assumes "if is_callback call then \<not> is_ok (TokenAuth_authorize headers)
           else \<not> is_ok (UserAuth_authorize ops user_auth headers)"
  shows "\<exists>code. get_router ops user_auth st headers call s = (Err (StatusErr code), s) \<and>
           (code = UNAUTHORIZED \<or> code = BAD_REQUEST \<and> is_callback call)"
proof (cases "is_callback call")
  case True
  then obtain code where code: "TokenAuth_authorize headers = Err code"
    using assms by (cases "TokenAuth_authorize headers") auto
  then have "code = UNAUTHORIZED \<or> code = BAD_REQUEST"
    by (auto simp: TokenAuth_authorize_def split: option.splits Result.splits if_splits)
  with True code show ?thesis by (auto simp: get_router_def)
next
  case False
  then obtain code where code: "UserAuth_authorize ops user_auth headers = Err code"
    using assms by (cases "UserAuth_authorize ops user_auth headers") auto
  then have "code = UNAUTHORIZED" by (auto simp: UserAuth_authorize_def split: option.splits)
  with False code show ?thesis by (auto simp: get_router_def)
qed

definition demo_st :: "(mem, nat) AppStateDyn" where
  "demo_st = \<lparr>state_db = mem_db,
     state_launcher = \<lparr>trait_launch = (\<lambda>v i nm u t cfg p n. (Ok (n, 60), n)), trait_get_versions = [''3.5'']\<rparr>,
     state_config = ProxyConfig_default, new_v4 = (\<lambda>n. (''t2'', Suc n)),
     render_template = (\<lambda>t a. Some (t @ a)),
     state_http = \<lparr>client_build = Ok (), http_post = (\<lambda>url hs n. (Ok 200, Suc n)),
       error_for_status = (\<lambda>code. if code < 400 then Ok () else Err ''status'')\<rparr>,
     spawn_watcher = (\<lambda>i h n. n)\<rparr>"

definition demo_headers :: HeaderMap where
  "demo_headers = header_map_of [(''REMOTE_USER'', ''bob'')]"

lemma demo_simps:
  "state_db demo_st = mem_db" "demo_headers ''authorization'' = None"
  "UserAuth_authorize demo_auth_ops [RemoteUserAuth ''REMOTE_USER''] demo_headers = Ok ''bob''"
  by (simp add: demo_st_def) code_simp+

theorem user_isolation_witness:
  "\<exists>r w. get_router demo_auth_ops [RemoteUserAuth ''REMOTE_USER''] demo_st demo_headers (DeleteApp 1)
      (demo_mem, [], 0) = (r, w) \<and>
    filter (\<lambda>m. username m \<noteq> ''bob'') (table (fst w)) = [demo_app]"
proof -
  obtain r d c n where run: "get_router demo_auth_ops [RemoteUserAuth ''REMOTE_USER''] demo_st demo_headers
      (DeleteApp 1) (demo_mem, [], 0) = (r, d, c, n)" by (metis prod_cases4)
  have "filter (\<lambda>m. username m \<noteq> ''bob'') (table demo_mem) = [demo_app]"
    by (simp add: demo_mem_def demo_app_def)
  with user_isolation [of demo_st table, unfolded demo_simps, OF mem.app_store_axioms _ demo_simps(3) run] run
  show ?thesis by (auto simp: is_callback_def)
qed

text \<open>C19: listing. If the given state names are all names of states, the answer lists the descriptions of
  exactly the caller's applications whose state is one of the named ones (any state when no name is
  given) and whose creation time is within the given bounds, each once; only if the query for
  these rows fails the answer is 500. A name that is not a state is answered with 400. The
  description has id, name, token and state of the row, whether there is an address, and the links
  rendered from the templates, which are assumed to be accepted by the template engine. The
  database is not changed.\<close>

theorem list_apps_exact:
  assumes "app_store (state_db st) rows" and "templates_render st"
    and "list_apps st u params (d, c, n) = (r, d', c', n')"
  shows "rows d' = rows d \<and>
     (if case lar_state params of None \<Rightarrow> True | Some fs \<Rightarrow> list_all state_name (state_names fs)
      then (\<exists>q. (\<forall>m. holds_all q m \<longleftrightarrow> username m = u \<and> wanted params m) \<and>
              \<not> is_ok (fst (db_all (state_db st) q d)) \<and> r = Err (StatusErr INTERNAL_SERVER_ERROR)) \<or>
        (\<exists>ms. mset ms = mset (filter (\<lambda>m. username m = u \<and> wanted params m) (rows d)) \<and>
              r = Ok (map (described st) ms))
      else r = Err (StatusErr BAD_REQUEST))"
proof (cases "list_query u params")
  case (Ok q)
  then have names: "case lar_state params of None \<Rightarrow> True | Some fs \<Rightarrow> list_all state_name (state_names fs)"
    using list_query_is_ok [of u params] by simp
  note ls = app_store.list_apps_cases [OF assms(1) refl assms(3), unfolded Ok Result.case collect_infos_described [OF assms(2)]]
  show ?thesis
    unfolding if_P [OF names] using ls list_query_Ok [OF Ok] by blast
next
  case (Err e)
  then have "\<not> (case lar_state params of None \<Rightarrow> True | Some fs \<Rightarrow> list_all state_name (state_names fs))"
    using list_query_is_ok [of u params] by simp
  with app_store.list_apps_cases [OF assms(1) refl assms(3)] Err show ?thesis by simp
qed

definition demo_listing :: mem where
  "demo_listing = demo_mem\<lparr>table := [demo_app, demo_app\<lparr>app_id := 2, app_state := FAILED, app_address := None\<rparr>,
     demo_app\<lparr>app_id := 3, username := ''bob''\<rparr>,
     demo_app\<lparr>app_id := 4, app_state := FINISHED, app_address := None\<rparr>]\<rparr>"

theorem list_apps_exact_witness:
  "(\<exists>infos w. list_apps demo_st ''alice'' \<lparr>lar_state = Some ''RUNNING,FINISHED'', lar_created_at_after = None,
      lar_created_at_before = None\<rparr> (demo_listing, [], 0) = (Ok infos, w) \<and>
      mset (map (\<lambda>i. (info_id i, info_state i, info_active i)) infos) =
        {#(1, ''RUNNING'', True), (4, ''FINISHED'', False)#}) \<and>
   fst (list_apps demo_st ''alice'' \<lparr>lar_state = Some ''DONE'', lar_created_at_after = None,
     lar_created_at_before = None\<rparr> (demo_listing, [], 0)) = Err (StatusErr 400)"
proof
  let ?p = "\<lambda>s. \<lparr>lar_state = Some s, lar_created_at_after = None, lar_created_at_before = None\<rparr>"
  have t: "templates_render demo_st" by (simp add: templates_render_def demo_st_def)
  note ex = list_apps_exact [of demo_st table, unfolded demo_simps, OF mem.app_store_axioms t]
  have ok: "is_ok (fst (db_all mem_db q demo_listing))" for q
    by (simp add: mem_db_def with_fault_def demo_listing_def demo_mem_def)
  have names: "state_names ''RUNNING,FINISHED'' = [''RUNNING'', ''FINISHED'']" "state_names ''DONE'' = [''DONE'']"
    by (simp_all add: state_names_def trim_graphic_id graphic_def)
  have rows: "filter (\<lambda>m. username m = ''alice'' \<and> wanted (?p ''RUNNING,FINISHED'') m) (table demo_listing) =
      [demo_app, demo_app\<lparr>app_id := 4, app_state := FINISHED, app_address := None\<rparr>]"
    by (simp add: wanted_def names demo_listing_def demo_app_def blank_row_def)
  obtain r d c n where run: "list_apps demo_st ''alice'' (?p ''RUNNING,FINISHED'') (demo_listing, [], 0) = (r, d, c, n)"
    by (metis prod_cases4)
  obtain ms where ms: "mset ms = {#demo_app, demo_app\<lparr>app_id := 4, app_state := FINISHED, app_address := None\<rparr>#}"
    "r = Ok (map (described demo_st) ms)"
    using ex [OF run] ok unfolding rows by (auto simp: names state_name_def)
  have "mset (map (\<lambda>i. (info_id i, info_state i, info_active i)) (map (described demo_st) ms)) =
      {#(1, ''RUNNING'', True), (4, ''FINISHED'', False)#}"
    using ms(1) by (simp add: described_def demo_app_def blank_row_def)
  with run ms(2) show "\<exists>infos w. list_apps demo_st ''alice'' (?p ''RUNNING,FINISHED'') (demo_listing, [], 0) = (Ok infos, w) \<and>
      mset (map (\<lambda>i. (info_id i, info_state i, info_active i)) infos) =
        {#(1, ''RUNNING'', True), (4, ''FINISHED'', False)#}" by blast
  obtain r d c n where run: "list_apps demo_st ''alice'' (?p ''DONE'') (demo_listing, [], 0) = (r, d, c, n)"
    by (metis prod_cases4)
  with ex [OF run] show "fst (list_apps demo_st ''alice'' (?p ''DONE'') (demo_listing, [], 0)) = Err (StatusErr 400)"
    by (simp add: names state_name_def status_codes)
qed

text \<open>C18: creating an application. Only if the insert of the row fails, nothing changes and the answer is
  500. Otherwise one row is added: a fresh id, the caller as owner, the given name, the new token,
  state LAUNCHING, no address. If the launcher starts the process, that row stays, a watcher for it
  is started and its description is the answer; if the launcher reports an error, the row is set to
  FAILED (it stays LAUNCHING only if this very update fails) and the answer is 500. No other row
  and no cached dispatcher is touched.\<close>

theorem create_app_effect:
  assumes "app_store (state_db st) rows" and "new_v4 st n = (token, n0)"
    and "create_app st u params (d, c, n) = (r, d', c', n')"
  shows "c' = c \<and>
    (r = Err (StatusErr INTERNAL_SERVER_ERROR) \<and> rows d' = rows d \<and> n' = n0 \<and>
       (\<exists>e. db_insert (state_db st) [(ColUsername, VStr u), (ColName, opt_val (car_name params)),
          (ColState, VState LAUNCHING), (ColToken, VStr token)] d = (Err e, d')) \<or>
     (\<exists>i t m d1 l n1. i \<notin> app_id ` set (rows d) \<and>
       m = \<lparr>app_id = i, created_at = t, username = u, app_name = car_name params,
            app_state = LAUNCHING, app_token = token, app_address = None, application_id = None\<rparr> \<and>
       db_insert (state_db st) [(ColUsername, VStr u), (ColName, opt_val (car_name params)),
          (ColState, VState LAUNCHING), (ColToken, VStr token)] d = (Ok m, d1) \<and> rows d1 = rows d @ [m] \<and>
       trait_launch (state_launcher st) (car_version params) i (car_name params) u token
         (unwrap_or (car_config params) []) (car_python_packages params) n0 = (l, n1) \<and>
       (case l of
          Ok child \<Rightarrow> rows d' = rows d @ [m] \<and> n' = spawn_watcher st i child n1 \<and>
            r = Ok \<lparr>info_id = i, info_name = car_name params, info_token = token,
                   info_state = ''LAUNCHING'', info_active = False, info_ui_url = None, info_log_url = None\<rparr>
        | Err (LaunchIo e) \<Rightarrow> r = Err (StatusErr INTERNAL_SERVER_ERROR) \<and> n' = n1 \<and>
            (\<exists>v. db_update (state_db st) i [(ColState, VState FAILED)] d1 = (v, d') \<and>
                 rows d' = rows d @ [if is_ok v then m\<lparr>app_state := FAILED\<rparr> else m])
        | Err (LaunchPanic p) \<Rightarrow> r = Err (Panicked p) \<and> rows d' = rows d @ [m] \<and> n' = n1)))"
proof (rule app_store.create_app_outcomes [OF assms(1) refl assms(3,2)], goal_cases)
  case (1 e)
  then show ?case by (simp add: new_application_def)
next
  case (2 i t m d1 l n1)
  have "application_info st m = Ok \<lparr>info_id = i, info_name = car_name params, info_token = token,
      info_state = ''LAUNCHING'', info_active = False, info_ui_url = None, info_log_url = None\<rparr>"
    using application_info_launching [of m st] 2(2) by simp
  with 2(7,4) have "case l of
          Ok child \<Rightarrow> rows d' = rows d @ [m] \<and> n' = spawn_watcher st i child n1 \<and>
            r = Ok \<lparr>info_id = i, info_name = car_name params, info_token = token,
                   info_state = ''LAUNCHING'', info_active = False, info_ui_url = None, info_log_url = None\<rparr>
        | Err (LaunchIo e) \<Rightarrow> r = Err (StatusErr INTERNAL_SERVER_ERROR) \<and> n' = n1 \<and>
            (\<exists>v. db_update (state_db st) i [(ColState, VState FAILED)] d1 = (v, d') \<and>
                 rows d' = rows d @ [if is_ok v then m\<lparr>app_state := FAILED\<rparr> else m])
        | Err (LaunchPanic p) \<Rightarrow> r = Err (Panicked p) \<and> rows d' = rows d @ [m] \<and> n' = n1"
    by (cases l; cases "err_val l") auto
  with 2(1-6) show ?case unfolding new_application_def by blast
qed

definition failing_st :: "(mem, nat) AppStateDyn" where
  "failing_st = demo_st\<lparr>state_launcher := \<lparr>
     trait_launch = (\<lambda>v i nm u t cfg p n. (Err (LaunchIo (IoError NotFound ''no spark-submit'')), n)),
     trait_get_versions = [''3.5'']\<rparr>\<rparr>"

theorem create_app_effect_witness:
  "\<exists>d info d2. create_app demo_st ''bob'' \<lparr>car_name = None, car_version = None, car_config = None,
          car_python_packages = None\<rparr> (demo_mem, [], 0) = (Ok info, d, [], 1) \<and>
     info_token info = ''t2'' \<and> map app_state (table d) = [RUNNING, LAUNCHING] \<and>
     create_app failing_st ''bob'' \<lparr>car_name = None, car_version = None, car_config = None,
          car_python_packages = None\<rparr> (demo_mem, [], 0) = (Err (StatusErr 500), d2, [], 1) \<and>
     map app_state (table d2) = [RUNNING, FAILED]"
proof -
  let ?p = "\<lparr>car_name = None, car_version = None, car_config = None, car_python_packages = None\<rparr>"
  have ins: "db_insert mem_db as demo_mem = mem_insert as demo_mem" for as
    by (simp add: mem_db_def with_fault_def demo_mem_def)
  have noerr: "mem_insert as demo_mem \<noteq> (Err e, d)" for as e d by (simp add: mem_insert_def Let_def)
  have upd: "is_ok v" if "mem_insert as demo_mem = (Ok m, d1)" "db_update mem_db (app_id m) us d1 = (v, d3)" for as us m d1 v d3
  proof -
    have "table d1 = table demo_mem @ [m]" "faults d1 = []" using that(1) by (auto simp: mem_insert_def Let_def demo_mem_def)
    with that(2) show ?thesis by (auto simp: mem_db_def with_fault_def mem_update_def matching_def filter_empty_conv split: list.splits)
  qed
  have app: "map app_state (table demo_mem) = [RUNNING]" by (simp add: demo_mem_def demo_app_def)
  have st: "new_v4 demo_st 0 = (''t2'', 1)" "new_v4 failing_st 0 = (''t2'', 1)" "state_db failing_st = mem_db"
    "spawn_watcher demo_st i h n = n"
    "trait_launch (state_launcher demo_st) v i nm u t cfg p n = (Ok (n, 60), n)"
    "trait_launch (state_launcher failing_st) v i nm u t cfg p n = (Err (LaunchIo (IoError NotFound ''no spark-submit'')), n)"
    for v i nm u t cfg p n and h :: JoinHandle by (simp_all add: demo_st_def failing_st_def)
  obtain r d c n where run: "create_app demo_st ''bob'' ?p (demo_mem, [], 0) = (r, d, c, n)" by (metis prod_cases4)
  obtain r2 d2 c2 n2 where run2: "create_app failing_st ''bob'' ?p (demo_mem, [], 0) = (r2, d2, c2, n2)" by (metis prod_cases4)
  have "\<exists>info. (r, d, c, n) = (Ok info, d, [], 1) \<and> info_token info = ''t2'' \<and> map app_state (table d) = [RUNNING, LAUNCHING]"
    using create_app_effect [of demo_st table, unfolded demo_simps, OF mem.app_store_axioms st(1) run] app
    by (auto simp: ins st mem_insert_def Let_def)
  moreover have "(r2, d2, c2, n2) = (Err (StatusErr 500), d2, [], 1) \<and> map app_state (table d2) = [RUNNING, FAILED]"
    using create_app_effect [of failing_st table, unfolded st(3), OF mem.app_store_axioms st(2) run2] app upd
    by (auto simp: ins st status_codes noerr)
  ultimately show ?thesis using run run2 by auto
qed

text \<open>Create/get round trip. Right after creating, the owner reads back the very description
  that creating returned, and no other user can read it (a failing query is answered with 500 in
  both cases).\<close>

lemma create_then_get:
  assumes "app_store (state_db st) rows" and "create_app st u params s = (Ok info, s1)"
    and "get_app st (info_id info) v s1 = (r, s2)"
  shows "r = Err (StatusErr INTERNAL_SERVER_ERROR) \<or>
         r = (if v = u then Ok info else Err (StatusErr NOT_FOUND))"
proof -
  obtain d c n d1 c1 n1 d2 c2 n2 where s: "s = (d, c, n)" "s1 = (d1, c1, n1)" "s2 = (d2, c2, n2)"
    by (metis prod_cases3)
  obtain m where m: "app_id m \<notin> app_id ` set (rows d)" "username m = u"
    and rows: "rows d1 = rows d @ [m]" and info: "application_info st m = Ok info"
    using app_store.create_app_OkD [OF assms(1) refl assms(2) [unfolded s] prod.collapse [symmetric]] by blast
  let ?i = "app_id m"
  have id: "info_id info = ?i" using application_info_Ok [OF info] by simp
  have ne: "app_id x \<noteq> ?i" if "x \<in> set (rows d)" for x using that m(1) by (metis imageI)
  have own: "owns v ?i x \<longleftrightarrow> x = m \<and> v = u" if "x \<in> set (rows d1)" for x
    using that m rows ne by (auto simp: owns_def)
  from app_store.get_app_cases [OF assms(1) refl assms(3) [unfolded s id]]
  show ?thesis using own m rows info by (auto simp: list_ex_iff)
qed

text \<open>C10: deleting an application. If the caller has no application with this id the answer is 404 and
  nothing changes. Otherwise exactly the caller's row becomes FINISHED without an address, the
  dispatcher of its token leaves the cache, and a session that had an address is told to stop,
  with its own token; if that message fails, the answer is 500 but the row and the cache are
  updated all the same.\<close>

theorem delete_app_effect:
  assumes "app_store (state_db st) rows"
    and "delete_app st i u (d, c, n) = (r, d', c', n')"
  shows "r = Err (StatusErr INTERNAL_SERVER_ERROR) \<and> rows d' = rows d \<and> c' = c \<and> n' = n \<or>
     r = Err (StatusErr NOT_FOUND) \<and> \<not> list_ex (owns u i) (rows d) \<and> rows d' = rows d \<and> c' = c \<and> n' = n \<or>
     (\<exists>m \<in> set (rows d). owns u i m \<and>
       rows d' = map (\<lambda>m. if owns u i m then m\<lparr>app_address := None, app_state := FINISHED\<rparr> else m) (rows d) \<and>
       hm_get c' (app_token m) = None \<and>
       (case app_address m of
          None \<Rightarrow> r = Ok () \<and> n' = n
        | Some a \<Rightarrow> (case send_session_message (state_http st) a (app_token m) ''stop'' n of
            (stop, n1) \<Rightarrow> n' = n1 \<and>
              r = (case stop of Ok _ \<Rightarrow> Ok () | Err _ \<Rightarrow> Err (StatusErr INTERNAL_SERVER_ERROR)))))"
proof (rule app_store.delete_app_cases [OF assms(1) refl assms(2)], goal_cases)
  case (3 m)
  then show ?case by (intro disjI2 bexI [of _ m]) (auto simp: invalidate_def hm_simps)
qed simp_all

theorem delete_app_effect_witness:
  "\<exists>r d n. delete_app demo_st 1 ''alice'' (demo_mem, [(''t1'', 7)], 0) = (r, d, [], n) \<and>
     table d = [demo_app\<lparr>app_address := None, app_state := FINISHED\<rparr>] \<and> r = Ok () \<and> n = 1"
proof -
  obtain r d c n where run: "delete_app demo_st 1 ''alice'' (demo_mem, [(''t1'', 7)], 0) = (r, d, c, n)"
    by (metis prod_cases4)
  have t: "table demo_mem = [demo_app]" and own: "owns ''alice'' 1 demo_app"
    and a: "app_address demo_app = Some ''h:1''" and tok: "app_token demo_app = ''t1''"
    by (simp_all add: demo_mem_def demo_app_def owns_def blank_row_def)
  have ok: "is_ok r" and c: "c = []" using run
    by (auto simp: delete_app_def demo_st_def mem_db_def with_fault_def mem_update_many_def of_user_def
        demo_mem_def demo_app_def blank_row_def send_session_message_def invalidate_def hm_remove_def)
  have stop: "send_session_message (state_http demo_st) ''h:1'' ''t1'' ''stop'' 0 = (Ok (), 1)"
    by (simp add: send_session_message_def demo_st_def)
  from delete_app_effect [of demo_st table, unfolded demo_simps, OF mem.app_store_axioms run] ok c own a run t stop tok
  show ?thesis by auto
qed

text \<open>The callback of a session. With a token no application has, the answer is 404 and nothing
  changes. Otherwise exactly the rows with this token become RUNNING with the given address and
  Spark application id, whatever their state was.\<close>

lemma app_callback_effect:
  assumes "app_store (state_db st) rows"
    and "app_callback st t params (d, c, n) = (r, d', c', n')"
  shows "c' = c \<and> n' = n \<and>
     (r = Err (StatusErr INTERNAL_SERVER_ERROR) \<and> rows d' = rows d \<or>
      r = Err (StatusErr NOT_FOUND) \<and> t \<notin> app_token ` set (rows d) \<and> rows d' = rows d \<or>
      r = Ok () \<and> t \<in> app_token ` set (rows d) \<and>
      rows d' = map (\<lambda>m. if app_token m = t
         then m\<lparr>app_address := Some (acr_address params), app_state := RUNNING,
                application_id := Some (acr_application_id params)\<rparr> else m) (rows d))"
  by (rule app_store.app_callback_cases [OF assms(1) refl assms(2)])

text \<open>The end-of-session callback. With a token no application has, the answer is 404 and nothing
  changes. Otherwise exactly the rows with this token become FINISHED without an address and the
  token's dispatcher leaves the cache.\<close>

lemma app_callback_delete_effect:
  assumes "app_store (state_db st) rows"
    and "app_callback_delete st t (d, c, n) = (r, d', c', n')"
  shows "n' = n \<and>
     (r = Err (StatusErr INTERNAL_SERVER_ERROR) \<and> rows d' = rows d \<and> c' = c \<or>
      r = Err (StatusErr NOT_FOUND) \<and> t \<notin> app_token ` set (rows d) \<and> rows d' = rows d \<and> c' = c \<or>
      r = Ok () \<and> t \<in> app_token ` set (rows d) \<and> c' = invalidate t c \<and>
      rows d' = map (\<lambda>m. if app_token m = t
         then m\<lparr>app_address := None, app_state := FINISHED\<rparr> else m) (rows d))"
  by (rule app_store.app_callback_delete_cases [OF assms(1) refl assms(2)])

text \<open>C38: a deleted application comes back. After an owner has deleted an application, which is FINISHED
  then, a callback with its token is accepted unless the database fails, and makes the row RUNNING
  again with the new address, still with the same id, owner, name and token.\<close>

theorem late_callback_revives:
  assumes "app_store (state_db st) rows" and "m \<in> set (rows d)" and "owns u i m"
    and "delete_app st i u (d, c, n) = (Ok (), d1, c1, n1)"
    and "app_callback st (app_token m) params (d1, c2, n2) = (r, d2, c3, n3)"
    and "r \<noteq> Err (StatusErr INTERNAL_SERVER_ERROR)"
  shows "m\<lparr>app_address := None, app_state := FINISHED\<rparr> \<in> set (rows d1) \<and> r = Ok () \<and>
     m\<lparr>app_address := Some (acr_address params), app_state := RUNNING,
       application_id := Some (acr_application_id params)\<rparr> \<in> set (rows d2)"
proof -
  let ?f = "m\<lparr>app_address := None, app_state := FINISHED\<rparr>"
  have "rows d1 = map (\<lambda>m. if owns u i m then m\<lparr>app_address := None, app_state := FINISHED\<rparr> else m) (rows d)"
    using app_store.delete_app_cases [OF assms(1) refl assms(4)] by blast
  then have f: "?f \<in> set (rows d1)" using assms(2,3) by (auto intro!: image_eqI [of _ _ m])
  then have "app_token m \<in> app_token ` set (rows d1)" by (intro image_eqI [of _ _ ?f]) simp_all
  with app_store.app_callback_cases [OF assms(1) refl assms(5)] assms(6)
  have "r = Ok ()" and "rows d2 = map (\<lambda>x. if app_token x = app_token m
         then x\<lparr>app_address := Some (acr_address params), app_state := RUNNING,
                application_id := Some (acr_application_id params)\<rparr> else x) (rows d1)" by auto
  with f show ?thesis by (auto intro!: image_eqI [of _ _ ?f])
qed

theorem late_callback_revives_witness:
  "\<exists>s1 s2. delete_app demo_st 1 ''alice''
      (demo_mem\<lparr>table := [demo_app\<lparr>app_state := LAUNCHING, app_address := None\<rparr>]\<rparr>, [], 0) = (Ok (), s1) \<and>
     app_callback demo_st ''t1'' \<lparr>acr_address = ''h:9'', acr_application_id = ''a''\<rparr> s1 = (Ok (), s2) \<and>
     demo_app\<lparr>app_address := None, app_state := FINISHED\<rparr> \<in> set (table (fst s1)) \<and>
     demo_app\<lparr>app_address := Some ''h:9'', app_state := RUNNING, application_id := Some ''a''\<rparr> \<in> set (table (fst s2))"
proof -
  let ?m = "demo_app\<lparr>app_state := LAUNCHING, app_address := None\<rparr>"
  let ?d = "demo_mem\<lparr>table := [?m]\<rparr>" and ?p = "\<lparr>acr_address = ''h:9'', acr_application_id = ''a''\<rparr>"
  have m: "?m \<in> set (table ?d)" "owns ''alice'' 1 ?m" "app_token ?m = ''t1''"
    by (simp_all add: owns_def demo_app_def blank_row_def)
  obtain d1 c1 n1 where del: "delete_app demo_st 1 ''alice'' (?d, [], 0) = (Ok (), d1, c1, n1)" "faults d1 = []"
    by (simp add: delete_app_def demo_st_def mem_db_def with_fault_def mem_update_many_def
      of_user_def demo_mem_def demo_app_def blank_row_def)
  obtain r d2 c2 n2 where cb: "app_callback demo_st (app_token ?m) ?p (d1, c1, n1) = (r, d2, c2, n2)" by (metis prod_cases4)
  moreover have "r \<noteq> Err (StatusErr INTERNAL_SERVER_ERROR)"
    using cb del(2) by (auto simp: app_callback_def demo_st_def mem_db_def with_fault_def mem_update_many_def status_codes
        split: if_splits)
  ultimately show ?thesis
    using late_callback_revives [of demo_st table, unfolded demo_simps, OF mem.app_store_axioms m(1,2) del(1) cb] del(1) m(3)
    by - (rule exI [of _ "(d1, c1, n1)"], rule exI [of _ "(d2, c2, n2)"], simp)
qed

end
