(* ===== verification/Migrations.thy ===== *)
theory Migrations
  imports App_Store
begin

text \<open>
  The schema migrations (\<open>server/migration/src\<close>): each migration is the list of the statements its
  \<open>up\<close> and \<open>down\<close> send, in order, stopping at the first error. Executing a statement is library and
  database code and an argument. The locale \<open>ddl_engine\<close> states what SQL documents for a statement
  that succeeds, on the tables and indexes of a database; the theorems hold for every engine that
  does this. \<open>exec_schema\<close> is one, a catalogue in memory, for the witnesses.
\<close>

section \<open>Definitions\<close>

datatype col_type = IntegerT | StringT | TimestampTz

record col_def =
  col_name :: string
  col_type_of :: col_type
  is_null :: bool
  is_key :: bool
  col_default :: "string option"

definition pk_auto :: "string \<Rightarrow> col_def" where
  "pk_auto c = \<lparr>col_name = c, col_type_of = IntegerT, is_null = False, is_key = True, col_default = None\<rparr>"

definition string_col :: "string \<Rightarrow> col_def" where
  "string_col c = \<lparr>col_name = c, col_type_of = StringT, is_null = False, is_key = False, col_default = None\<rparr>"

definition string_null :: "string \<Rightarrow> col_def" where
  "string_null c = (string_col c)\<lparr>is_null := True\<rparr>"

definition timestamp_with_time_zone :: "string \<Rightarrow> col_def" where
  "timestamp_with_time_zone c =
     \<lparr>col_name = c, col_type_of = TimestampTz, is_null = False, is_key = False, col_default = None\<rparr>"

datatype ddl =
    CreateTable bool string "col_def list"
  | CreateIndex string string string
  | DropIndex bool string string
  | DropTable bool string
  | AddColumn string col_def
  | DropColumn string string

record Migration =
  mig_up :: "ddl list"
  mig_down :: "ddl list"

definition create_table_application :: Migration where
  "create_table_application = \<lparr>
     mig_up =
       [CreateTable True ''application''
          [pk_auto ''id'', string_col ''username'', string_col ''token'', string_col ''state'',
           string_null ''address'', string_null ''application_id'',
           (timestamp_with_time_zone ''created_at'')\<lparr>col_default := Some ''CURRENT_TIMESTAMP''\<rparr>],
        CreateIndex ''application_token'' ''application'' ''token'',
        CreateIndex ''application_username'' ''application'' ''username''],
     mig_down =
       [DropIndex True ''application_username'' ''application'',
        DropIndex True ''application_token'' ''application'',
        DropTable True ''application'']\<rparr>"

definition add_name_to_application :: Migration where
  "add_name_to_application = \<lparr>
     mig_up = [AddColumn ''application'' (string_null ''name'')],
     mig_down = [DropColumn ''application'' ''name'']\<rparr>"

definition migrations :: "Migration list" where
  "migrations = [create_table_application, add_name_to_application]"

fun exec_all :: "(ddl \<Rightarrow> 'd \<Rightarrow> (unit, DbErr) Result \<times> 'd) \<Rightarrow> ddl list \<Rightarrow> 'd \<Rightarrow> (unit, DbErr) Result \<times> 'd" where
  "exec_all exec [] d = (Ok (), d)"
| "exec_all exec (stmt # stmts) d =
     (case exec stmt d of
        (Err e, d) \<Rightarrow> (Err e, d)
      | (Ok _, d) \<Rightarrow> exec_all exec stmts d)"

text \<open>How the entity names its columns.\<close>

fun col_ident :: "Column \<Rightarrow> string" where
  "col_ident ColId = ''id''"
| "col_ident ColCreatedAt = ''created_at''"
| "col_ident ColUsername = ''username''"
| "col_ident ColName = ''name''"
| "col_ident ColState = ''state''"
| "col_ident ColToken = ''token''"
| "col_ident ColAddress = ''address''"
| "col_ident ColApplicationId = ''application_id''"

text \<open>A column of the table fits a column of the entity: it has its name, a type for all its values, and
  may be \<open>NULL\<close> exactly if the field of the entity is optional.\<close>

definition fits :: "col_def \<Rightarrow> Column \<Rightarrow> bool" where
  "fits cd c \<longleftrightarrow> col_name cd = col_ident c \<and>
     (\<forall>m. case col_val c m of
            VInt i \<Rightarrow> col_type_of cd = IntegerT
          | VTime t \<Rightarrow> col_type_of cd = TimestampTz
          | VStr s \<Rightarrow> col_type_of cd = StringT
          | VState s \<Rightarrow> col_type_of cd = StringT
          | VNull \<Rightarrow> True) \<and>
     (is_null cd \<longleftrightarrow> (\<exists>m. col_val c m = VNull))"

text \<open>The columns both migrations leave.\<close>

definition application_columns :: "col_def list" where
  "application_columns =
     [pk_auto ''id'', string_col ''username'', string_col ''token'', string_col ''state'',
      string_null ''address'', string_null ''application_id'',
      (timestamp_with_time_zone ''created_at'')\<lparr>col_default := Some ''CURRENT_TIMESTAMP''\<rparr>,
      string_null ''name'']"

section \<open>The contract\<close>

lemma exec_all_Ok_iff:
  "exec_all exec (stmt # stmts) d = (Ok (), d') \<longleftrightarrow>
   (\<exists>d1. exec stmt d = (Ok (), d1) \<and> exec_all exec stmts d1 = (Ok (), d'))"
  by (cases "exec stmt d"; cases "fst (exec stmt d)") auto

lemma opt_val_text [simp]: "opt_val x \<noteq> VInt i" "opt_val x \<noteq> VTime t" "opt_val x \<noteq> VState s"
  by (cases x; simp)+

text \<open>What SQL documents for a statement that succeeds: \<open>catalogue\<close> gives the columns of a table and
  \<open>index_of\<close> the table and column of an index.\<close>

locale ddl_engine =
  fixes exec :: "ddl \<Rightarrow> 'd \<Rightarrow> (unit, DbErr) Result \<times> 'd"
    and catalogue :: "'d \<Rightarrow> string \<Rightarrow> col_def list option"
    and index_of :: "'d \<Rightarrow> string \<Rightarrow> (string \<times> string) option"
  assumes create_table_law: "exec (CreateTable if_not_exists t cs) d = (Ok (), d') \<Longrightarrow>
      catalogue d' = (if catalogue d t = None then (catalogue d)(t \<mapsto> cs) else catalogue d) \<and> index_of d' = index_of d"
    and create_index_law: "exec (CreateIndex i t c) d = (Ok (), d') \<Longrightarrow>
      catalogue d' = catalogue d \<and> index_of d' = (index_of d)(i \<mapsto> (t, c))"
    and drop_index_law: "exec (DropIndex if_exists i t) d = (Ok (), d') \<Longrightarrow>
      catalogue d' = catalogue d \<and> index_of d' = (index_of d)(i := None)"
    and drop_table_law: "exec (DropTable if_exists t) d = (Ok (), d') \<Longrightarrow>
      catalogue d' = (catalogue d)(t := None) \<and>
      index_of d' = (\<lambda>i. if \<exists>c. index_of d i = Some (t, c) then None else index_of d i)"
    and add_column_law: "exec (AddColumn t cd) d = (Ok (), d') \<Longrightarrow>
      index_of d' = index_of d \<and> (\<exists>cs. catalogue d t = Some cs \<and> catalogue d' = (catalogue d)(t \<mapsto> cs @ [cd]))"
    and drop_column_law: "exec (DropColumn t c) d = (Ok (), d') \<Longrightarrow>
      index_of d' = index_of d \<and> (\<exists>cs. catalogue d t = Some cs \<and>
        catalogue d' = (catalogue d)(t \<mapsto> filter (\<lambda>x. col_name x \<noteq> c) cs))"
begin

lemma migrations_up:
  assumes "catalogue d ''application'' = None"
    and "exec_all exec (concat (map mig_up migrations)) d = (Ok (), d')"
  shows "catalogue d' = (catalogue d)(''application'' \<mapsto> application_columns)"
    and "index_of d' = (index_of d)(''application_token'' \<mapsto> (''application'', ''token''),
       ''application_username'' \<mapsto> (''application'', ''username''))"
proof -
  from assms(2) obtain d1 d2 d3 where
    t: "exec (hd (mig_up create_table_application)) d = (Ok (), d1)"
    and i1: "exec (CreateIndex ''application_token'' ''application'' ''token'') d1 = (Ok (), d2)"
    and i2: "exec (CreateIndex ''application_username'' ''application'' ''username'') d2 = (Ok (), d3)"
    and c: "exec (AddColumn ''application'' (string_null ''name'')) d3 = (Ok (), d')"
    by (auto simp: migrations_def create_table_application_def add_name_to_application_def exec_all_Ok_iff
        simp del: exec_all.simps(2))
  note laws = create_table_law [OF t [unfolded create_table_application_def, simplified]]
    create_index_law [OF i1] create_index_law [OF i2] add_column_law [OF c]
  from laws assms(1) show "catalogue d' = (catalogue d)(''application'' \<mapsto> application_columns)" by (auto simp: application_columns_def)
  from laws show "index_of d' = (index_of d)(''application_token'' \<mapsto> (''application'', ''token''),
       ''application_username'' \<mapsto> (''application'', ''username''))" by simp
qed

lemma migrations_down:
  assumes "exec_all exec (concat (map mig_down (rev migrations))) d = (Ok (), d')"
  shows "catalogue d' = (catalogue d)(''application'' := None)"
    and "index_of d' = (\<lambda>i. if i \<in> {''application_token'', ''application_username''} \<or>
       (\<exists>c. index_of d i = Some (''application'', c)) then None else index_of d i)"
proof -
  from assms obtain d1 d2 d3 where
    c: "exec (DropColumn ''application'' ''name'') d = (Ok (), d1)"
    and i1: "exec (DropIndex True ''application_username'' ''application'') d1 = (Ok (), d2)"
    and i2: "exec (DropIndex True ''application_token'' ''application'') d2 = (Ok (), d3)"
    and t: "exec (DropTable True ''application'') d3 = (Ok (), d')"
    by (auto simp: migrations_def create_table_application_def add_name_to_application_def exec_all_Ok_iff
        simp del: exec_all.simps(2))
  note laws = drop_column_law [OF c] drop_index_law [OF i1] drop_index_law [OF i2] drop_table_law [OF t]
  from laws show "catalogue d' = (catalogue d)(''application'' := None)" by auto
  from laws show "index_of d' = (\<lambda>i. if i \<in> {''application_token'', ''application_username''} \<or>
       (\<exists>c. index_of d i = Some (''application'', c)) then None else index_of d i)" by (auto simp: fun_eq_iff)
qed

end

subsection \<open>A catalogue in memory\<close>

record schema =
  tables :: "string \<rightharpoonup> col_def list"
  indexes :: "string \<rightharpoonup> string \<times> string"

fun exec_schema :: "ddl \<Rightarrow> schema \<Rightarrow> (unit, DbErr) Result \<times> schema" where
  "exec_schema (CreateTable if_not_exists t cs) s =
     (if tables s t \<noteq> None then (if if_not_exists then Ok () else Err ''table exists'', s)
      else (Ok (), s\<lparr>tables := (tables s)(t \<mapsto> cs)\<rparr>))"
| "exec_schema (CreateIndex i t c) s =
     (if indexes s i \<noteq> None then (Err ''index exists'', s)
      else (case tables s t of
              None \<Rightarrow> (Err ''no such table'', s)
            | Some cs \<Rightarrow> if c \<in> set (map col_name cs)
                then (Ok (), s\<lparr>indexes := (indexes s)(i \<mapsto> (t, c))\<rparr>)
                else (Err ''no such column'', s)))"
| "exec_schema (DropIndex if_exists i t) s =
     (if indexes s i = None then (if if_exists then Ok () else Err ''no such index'', s)
      else (Ok (), s\<lparr>indexes := (indexes s)(i := None)\<rparr>))"
| "exec_schema (DropTable if_exists t) s =
     (if tables s t = None \<and> \<not> if_exists then (Err ''no such table'', s)
      else (Ok (), s\<lparr>tables := (tables s)(t := None),
         indexes := (\<lambda>i. case indexes s i of
                           Some (t', c) \<Rightarrow> if t' = t then None else Some (t', c)
                         | None \<Rightarrow> None)\<rparr>))"
| "exec_schema (AddColumn t c) s =
     (case tables s t of
        None \<Rightarrow> (Err ''no such table'', s)
      | Some cs \<Rightarrow>
          if col_name c \<in> set (map col_name cs) then (Err ''column exists'', s)
          else (Ok (), s\<lparr>tables := (tables s)(t \<mapsto> cs @ [c])\<rparr>))"
| "exec_schema (DropColumn t c) s =
     (case tables s t of
        None \<Rightarrow> (Err ''no such table'', s)
      | Some cs \<Rightarrow>
          if c \<notin> set (map col_name cs) then (Err ''no such column'', s)
          else (Ok (), s\<lparr>tables := (tables s)(t \<mapsto> filter (\<lambda>x. col_name x \<noteq> c) cs)\<rparr>))"

interpretation cat: ddl_engine exec_schema tables indexes
  by (unfold_locales) (auto simp: fun_eq_iff split: if_splits option.splits)

section \<open>The columns of the entity\<close>

lemmas col_defs = pk_auto_def string_col_def string_null_def timestamp_with_time_zone_def

lemma optional_field: "\<exists>m :: Model. opt_val (app_name m) = VNull" "\<exists>m :: Model. opt_val (app_address m) = VNull"
  "\<exists>m :: Model. opt_val (application_id m) = VNull"
  by - (rule exI [of _ "blank_row 0 0"], simp add: blank_row_def)+

lemma fits_columns:
  "fits (pk_auto ''id'') ColId" "fits (string_col ''username'') ColUsername" "fits (string_col ''token'') ColToken"
  "fits (string_col ''state'') ColState" "fits (string_null ''address'') ColAddress"
  "fits (string_null ''application_id'') ColApplicationId"
  "fits ((timestamp_with_time_zone ''created_at'')\<lparr>col_default := d\<rparr>) ColCreatedAt" "fits (string_null ''name'') ColName"
  by (simp_all add: fits_def col_defs optional_field split: sql_val.split)

lemma distinct_columns: "distinct (map col_name application_columns)"
  by (simp add: application_columns_def col_defs)

lemma column_unique: "\<exists>!cd. cd \<in> set application_columns \<and> fits cd c"
proof -
  have inj: "inj_on col_name (set application_columns)" using distinct_columns by (simp only: distinct_map)
  have "\<exists>cd \<in> set application_columns. fits cd c"
    unfolding application_columns_def by (cases c) (simp_all add: fits_columns)
  then obtain cd where cd: "cd \<in> set application_columns" "fits cd c" by blast
  then have "x = cd" if "x \<in> set application_columns" "fits x c" for x
    using inj_onD [OF inj _ that(1) cd(1)] that(2) by (simp add: fits_def)
  with cd show ?thesis by blast
qed

lemma columns_fit: "list_all (\<lambda>cd. \<exists>c. fits cd c) application_columns"
  unfolding application_columns_def using fits_columns by auto

section \<open>Properties\<close>

text \<open>C33: the migrations build the table the entity maps. On any database that has no \<open>application\<close> table,
  with any engine that executes the statements as SQL documents, if the migrations succeed then the
  \<open>application\<close> table has exactly one column for each column of the entity and no other, each with
  the name and type of the entity's field and nullable exactly if the field is optional; its key is
  \<open>id\<close>, \<open>created_at\<close> defaults to the current time and nothing else has a default; tokens and owners
  are indexed; all other tables and indexes are as before.\<close>

theorem migrations_match_entity:
  assumes "ddl_engine exec catalogue index_of" and "catalogue d ''application'' = None"
    and "exec_all exec (concat (map mig_up migrations)) d = (Ok (), d')"
  shows "\<exists>cs. catalogue d' = (catalogue d)(''application'' \<mapsto> cs) \<and>
     (\<forall>c. \<exists>!cd. cd \<in> set cs \<and> fits cd c) \<and> list_all (\<lambda>cd. \<exists>c. fits cd c) cs \<and> distinct (map col_name cs) \<and>
     map col_name (filter is_key cs) = [''id''] \<and>
     map (\<lambda>cd. (col_name cd, col_default cd)) (filter (\<lambda>cd. col_default cd \<noteq> None) cs) =
       [(''created_at'', Some ''CURRENT_TIMESTAMP'')] \<and>
     index_of d' = (index_of d)(''application_token'' \<mapsto> (''application'', ''token''),
       ''application_username'' \<mapsto> (''application'', ''username''))"
proof (intro exI [of _ application_columns] conjI allI)
  show "catalogue d' = (catalogue d)(''application'' \<mapsto> application_columns)"
    "index_of d' = (index_of d)(''application_token'' \<mapsto> (''application'', ''token''),
       ''application_username'' \<mapsto> (''application'', ''username''))"
    by (rule ddl_engine.migrations_up [OF assms])+
  show "map col_name (filter is_key application_columns) = [''id'']"
    "map (\<lambda>cd. (col_name cd, col_default cd)) (filter (\<lambda>cd. col_default cd \<noteq> None) application_columns) =
       [(''created_at'', Some ''CURRENT_TIMESTAMP'')]" by (simp_all add: application_columns_def col_defs)
qed (fact column_unique columns_fit distinct_columns)+

text \<open>A database that already has another table with an index.\<close>

definition demo_schema :: schema where
  "demo_schema = \<lparr>tables = [''users'' \<mapsto> [pk_auto ''id'']], indexes = [''users_id'' \<mapsto> (''users'', ''id'')]\<rparr>"

lemma demo_schema_none:
  "tables demo_schema ''application'' = None" "indexes demo_schema i \<noteq> Some (''application'', c)"
  "indexes demo_schema ''application_token'' = None" "indexes demo_schema ''application_username'' = None"
  by (simp_all add: demo_schema_def)

lemma demo_up: "\<exists>s. exec_all exec_schema (concat (map mig_up migrations)) demo_schema = (Ok (), s) \<and>
   fst (exec_all exec_schema (concat (map mig_down (rev migrations))) s) = Ok ()"
proof -
  let ?run = "exec_all exec_schema (concat (map mig_up migrations)) demo_schema"
  have "fst ?run = Ok ()" "fst (exec_all exec_schema (concat (map mig_down (rev migrations))) (snd ?run)) = Ok ()"
    by code_simp+
  then show ?thesis by (intro exI [of _ "snd ?run"]) (simp add: prod_eq_iff)
qed

theorem migrations_match_entity_witness:
  "\<exists>s cs. exec_all exec_schema (concat (map mig_up migrations)) demo_schema = (Ok (), s) \<and>
     tables s ''application'' = Some cs \<and> (\<forall>c. \<exists>!cd. cd \<in> set cs \<and> fits cd c) \<and>
     tables s ''users'' = Some [pk_auto ''id'']"
proof -
  obtain s where run: "exec_all exec_schema (concat (map mig_up migrations)) demo_schema = (Ok (), s)"
    using demo_up by blast
  obtain cs where "tables s = (tables demo_schema)(''application'' \<mapsto> cs)" "\<forall>c. \<exists>!cd. cd \<in> set cs \<and> fits cd c"
    using migrations_match_entity [OF cat.ddl_engine_axioms demo_schema_none(1) run] by blast
  with run show ?thesis by (intro exI [of _ s] exI [of _ cs]) (simp add: demo_schema_def)
qed



end
