(* ===== verification/Server.thy ===== *)
theory Server
  imports Routes Migrations
begin

text \<open>
  Building the server from its configuration, the maintenance commands \<open>prune\<close> and \<open>check\<close>, loading
  the TLS material, the Kerberos task and \<open>main\<close> (\<open>server/src/lib.rs\<close>, \<open>server/src/main.rs\<close>). An
  \<open>anyhow::Error\<close> is its text. Opening the database, the \<open>sea-orm\<close> migrator, the system clock,
  \<open>DateTimeUtc::from_timestamp\<close>, reading and parsing TLS files and running processes are library
  code and arguments. Running the server is the subject of the theory \<open>Shutdown\<close>.
\<close>

section \<open>Definitions\<close>

datatype ProxyCommand = Start | Prune u64 | Check

record Args =
  config_file :: "string option"
  command :: "ProxyCommand option"

datatype server_error = Failed string | ServerPanic string

subsection \<open>TLS\<close>

record ('c, 'k, 'a) tls_ops =
  read_certs :: "string \<Rightarrow> ('c list, string) Result"
  read_private_key :: "string \<Rightarrow> ('k option, string) Result"
  server_config :: "'c list \<Rightarrow> 'k \<Rightarrow> string list \<Rightarrow> ('a, string) Result"

definition load_tls_acceptor ::
  "('c, 'k, 'a) tls_ops \<Rightarrow> ProxyConfig \<Rightarrow> ('a option, server_error) Result" where
  "load_tls_acceptor ops config =
     (case tls config of
        Some tls_config \<Rightarrow>
          (case read_certs ops (tls_cert tls_config) of
             Err e \<Rightarrow> Err (Failed e)
           | Ok certs \<Rightarrow>
          (case read_private_key ops (tls_key tls_config) of
             Err e \<Rightarrow> Err (Failed e)
           | Ok None \<Rightarrow> Err (ServerPanic ''called `Option::unwrap()` on a `None` value'')
           | Ok (Some key) \<Rightarrow>
          (case server_config ops certs key [''h2'', ''http/1.1''] of
             Err e \<Rightarrow> Err (Failed e)
           | Ok acceptor \<Rightarrow> Ok (Some acceptor))))
      | None \<Rightarrow> Ok None)"

subsection \<open>The server\<close>

record ('d, 'key, 'alg, 'a) Server =
  srv_config :: ProxyConfig
  srv_user_auth :: "('key, 'alg) UserAuthMethod list"
  srv_launcher :: SparkLauncher
  srv_db :: 'd
  srv_upstreams :: connections
  srv_tls_acceptor :: "'a option"

definition Server_from_config ::
  "(string \<Rightarrow> ('d, string) Result) \<Rightarrow> host \<Rightarrow> ('key, 'alg) auth_ops \<Rightarrow> ('c, 'k, 'a) tls_ops
   \<Rightarrow> ProxyConfig \<Rightarrow> (('d, 'key, 'alg, 'a) Server, server_error) Result" where
  "Server_from_config connect os ops tls_o config =
     (case connect (unwrap_or (store config) ''sqlite::memory:'') of
        Err e \<Rightarrow> Err (Failed e)
      | Ok db \<Rightarrow>
     (case launcher_from_config os config of
        Err (Panic p) \<Rightarrow> Err (ServerPanic p)
      | Ok l \<Rightarrow>
     (case UserAuth_from_config ops config of
        Err (Panic p) \<Rightarrow> Err (ServerPanic p)
      | Ok user_auth \<Rightarrow>
     (case load_tls_acceptor tls_o config of
        Err e \<Rightarrow> Err e
      | Ok tls_acceptor \<Rightarrow>
          Ok \<lparr>srv_config = config, srv_user_auth = user_auth, srv_launcher = l, srv_db = db,
              srv_upstreams = [], srv_tls_acceptor = tls_acceptor\<rparr>))))"

text \<open>\<open>Migrator::up(db, None)\<close> applies the pending ones of the given migrations.\<close>

definition ensure_db ::
  "(Migration list \<Rightarrow> 'd \<Rightarrow> (unit, DbErr) Result \<times> 'd) \<Rightarrow> 'd \<Rightarrow> (unit, server_error) Result \<times> 'd" where
  "ensure_db up d =
     (case up migrations d of
        (Err e, d) \<Rightarrow> (Err (Failed e), d)
      | (Ok _, d) \<Rightarrow> (Ok (), d))"

subsection \<open>Pruning\<close>

definition saturating_sub_i64 :: "int \<Rightarrow> int \<Rightarrow> int" where
  "saturating_sub_i64 a b = max (- (2 ^ 63)) (min (2 ^ 63 - 1) (a - b))"

text \<open>Seconds of the cutoff: both \<open>as i64\<close> casts reinterpret the 64 bits as a signed number.\<close>

definition prune_cutoff_secs :: "u64 \<Rightarrow> u64 \<Rightarrow> int" where
  "prune_cutoff_secs now_secs older_than_seconds =
     saturating_sub_i64 (sint now_secs) (sint older_than_seconds)"

definition prune_filter :: "DateTimeUtc \<Rightarrow> cond list" where
  "prune_filter cutoff =
     [CAny [CEq ColState (VState FAILED), CEq ColState (VState FINISHED)],
      CLte ColCreatedAt (VTime cutoff)]"

definition prune ::
  "'d db_ops \<Rightarrow> (Migration list \<Rightarrow> 'd \<Rightarrow> (unit, DbErr) Result \<times> 'd) \<Rightarrow> (u64, string) Result
   \<Rightarrow> (int \<Rightarrow> DateTimeUtc option) \<Rightarrow> u64 \<Rightarrow> 'd \<Rightarrow> (unit, server_error) Result \<times> 'd" where
  "prune db up now from_timestamp older_than_seconds d =
     (case ensure_db up d of
        (Err e, d) \<Rightarrow> (Err e, d)
      | (Ok _, d) \<Rightarrow>
     (case now of
        Err e \<Rightarrow> (Err (Failed e), d)
      | Ok now_secs \<Rightarrow>
     (case from_timestamp (prune_cutoff_secs now_secs older_than_seconds) of
        None \<Rightarrow> (Err (Failed ''Failed to create prune cutoff timestamp''), d)
      | Some cutoff \<Rightarrow>
     (case db_delete_many db (prune_filter cutoff) d of
        (Err e, d) \<Rightarrow> (Err (Failed e), d)
      | (Ok rows_affected, d) \<Rightarrow> (Ok (), d)))))"

subsection \<open>Checking\<close>

definition HEALTH_CHECK_RETRIES :: nat where
  "HEALTH_CHECK_RETRIES = 3"

definition HEALTH_CHECK_RETRY_DELAY :: nat where
  "HEALTH_CHECK_RETRY_DELAY = 1000"

definition health_probe ::
  "'n http_client \<Rightarrow> string \<Rightarrow> string \<Rightarrow> 'd \<times> 'n \<Rightarrow> (unit, string) Result \<times> 'd \<times> 'n" where
  "health_probe http address token s =
     (case send_session_message http address token ''health'' (snd s) of (r, n) \<Rightarrow> (r, fst s, n))"

text \<open>The loop, with the attempts that are left.\<close>

fun health_attempts ::
  "'n http_client \<Rightarrow> (nat \<Rightarrow> 'd \<times> 'n \<Rightarrow> 'd \<times> 'n) \<Rightarrow> string \<Rightarrow> string \<Rightarrow> nat \<Rightarrow> string option \<Rightarrow> 'd \<times> 'n
   \<Rightarrow> ((unit, string) Result, string) loop_end \<times> 'd \<times> 'n" where
  "health_attempts http sleep address token 0 last_error s = (FallThrough last_error, s)"
| "health_attempts http sleep address token (Suc left) last_error s =
     (case health_probe http address token s of
        (Ok _, s) \<Rightarrow> (Return (Ok ()), s)
      | (Err error, s) \<Rightarrow>
          health_attempts http sleep address token left (Some error)
            (if 0 < left then sleep HEALTH_CHECK_RETRY_DELAY s else s))"

definition check_application_health ::
  "'n http_client \<Rightarrow> (nat \<Rightarrow> 'd \<times> 'n \<Rightarrow> 'd \<times> 'n) \<Rightarrow> string \<Rightarrow> string \<Rightarrow> 'd \<times> 'n
   \<Rightarrow> (unit, string) Result \<times> 'd \<times> 'n" where
  "check_application_health http sleep address token s =
     (case health_attempts http sleep address token (Suc HEALTH_CHECK_RETRIES) None s of
        (Return r, s) \<Rightarrow> (r, s)
      | (FallThrough (Some e), s) \<Rightarrow> (Err e, s)
      | (FallThrough None, s) \<Rightarrow>
          (Err ''health check retries should capture the last error'', s))"

definition check_failed_assigns :: "assignment list" where
  "check_failed_assigns = [(ColState, VState FAILED), (ColAddress, VNull)]"

fun check_apps ::
  "'d db_ops \<Rightarrow> 'n http_client \<Rightarrow> (nat \<Rightarrow> 'd \<times> 'n \<Rightarrow> 'd \<times> 'n) \<Rightarrow> Model list \<Rightarrow> 'd \<times> 'n
   \<Rightarrow> (unit, server_error) Result \<times> 'd \<times> 'n" where
  "check_apps db http sleep [] s = (Ok (), s)"
| "check_apps db http sleep (app # apps) s =
     (case (case app_address app of
              Some address \<Rightarrow>
                (case check_application_health http sleep address (app_token app) s of
                   (r, s) \<Rightarrow> (\<not> is_ok r, s))
            | None \<Rightarrow> (True, s)) of
        (should_fail, s) \<Rightarrow>
          if should_fail then
            (case db_update db (app_id app) check_failed_assigns (fst s) of
               (Err e, d) \<Rightarrow> (Err (Failed e), d, snd s)
             | (Ok _, d) \<Rightarrow> check_apps db http sleep apps (d, snd s))
          else check_apps db http sleep apps s)"

definition check ::
  "'d db_ops \<Rightarrow> (Migration list \<Rightarrow> 'd \<Rightarrow> (unit, DbErr) Result \<times> 'd) \<Rightarrow> 'n http_client
   \<Rightarrow> (nat \<Rightarrow> 'd \<times> 'n \<Rightarrow> 'd \<times> 'n) \<Rightarrow> 'd \<times> 'n \<Rightarrow> (unit, server_error) Result \<times> 'd \<times> 'n" where
  "check db up http sleep s =
     (case ensure_db up (fst s) of
        (Err e, d) \<Rightarrow> (Err e, d, snd s)
      | (Ok _, d) \<Rightarrow>
     (case db_all db [CEq ColState (VState RUNNING)] d of
        (Err e, d) \<Rightarrow> (Err (Failed e), d, snd s)
      | (Ok running_apps, d) \<Rightarrow> check_apps db http sleep running_apps (d, snd s)))"

subsection \<open>Kerberos\<close>

datatype action = RunCommand string "string list" | SleepSecs u64

text \<open>The task loops forever; these are its first \<open>k\<close> rounds, whatever the commands return.\<close>

fun kerberos_rounds :: "string \<Rightarrow> KerberosConfig \<Rightarrow> nat \<Rightarrow> action list" where
  "kerberos_rounds kinit cfg 0 = []"
| "kerberos_rounds kinit cfg (Suc k) =
     [RunCommand kinit [''-kt'', keytab cfg, principal cfg],
      SleepSecs (unwrap_or (renewal_interval cfg) 3600)] @ kerberos_rounds kinit cfg k"

definition kerberos_creds_task :: "host \<Rightarrow> KerberosConfig \<Rightarrow> (nat \<Rightarrow> action list, panic) Result" where
  "kerberos_creds_task os cfg =
     (case which_exe os ''kinit'' of
        None \<Rightarrow> Err (Panic ''Failed to find kinit executable'')
      | Some kinit \<Rightarrow> Ok (kerberos_rounds kinit cfg))"

subsection \<open>The entry point\<close>

text \<open>\<open>run\<close>, \<open>prune_cmd\<close> and \<open>check_cmd\<close> are the three commands on the built server.\<close>

definition main ::
  "(string option \<Rightarrow> (ProxyConfig, panic) Result)
   \<Rightarrow> (ProxyConfig \<Rightarrow> ('srv, server_error) Result)
   \<Rightarrow> ('srv \<Rightarrow> 'w \<Rightarrow> (unit, server_error) Result \<times> 'w)
   \<Rightarrow> ('srv \<Rightarrow> u64 \<Rightarrow> 'w \<Rightarrow> (unit, server_error) Result \<times> 'w)
   \<Rightarrow> ('srv \<Rightarrow> 'w \<Rightarrow> (unit, server_error) Result \<times> 'w)
   \<Rightarrow> Args \<Rightarrow> 'w \<Rightarrow> (unit, server_error) Result \<times> 'w" where
  "main create from_config run_cmd prune_cmd check_cmd args w =
     (case create (config_file args) of
        Err (Panic p) \<Rightarrow> (Err (ServerPanic p), w)
      | Ok config \<Rightarrow>
     (case from_config config of
        Err e \<Rightarrow> (Err e, w)
      | Ok server \<Rightarrow>
     (case unwrap_or (command args) Start of
        Start \<Rightarrow> run_cmd server w
      | Prune seconds \<Rightarrow> prune_cmd server seconds w
      | Check \<Rightarrow> check_cmd server w)))"

section \<open>Lemmas\<close>

subsection \<open>The cutoff\<close>

lemma sint_u64:
  "sint (x :: u64) = (if uint x < 2 ^ 63 then uint x else uint x - 2 ^ 64)"
proof -
  have range: "0 \<le> uint x" "uint x < 2 ^ 64"
    using uint_ge_0 [of x] uint_lt2p [of x] by simp_all
  have s: "sint x = signed_take_bit 63 (uint x)" by (simp add: sint_uint)
  show ?thesis
  proof (cases "uint x < 2 ^ 63")
    case True
    moreover have "- (2 ^ 63) \<le> uint x" by (rule order_trans [OF _ range(1)]) simp
    ultimately have "signed_take_bit 63 (uint x) = uint x" by (intro signed_take_bit_int_eq_self)
    with True s show ?thesis by simp
  next
    case False
    with range have "uint x div 2 ^ 63 = 1" by auto
    then have "bit (uint x) 63" by (simp add: bit_iff_odd)
    moreover have "take_bit 64 (uint x) = uint x" using range by (intro take_bit_int_eq_self) simp_all
    ultimately have "signed_take_bit 63 (uint x) = uint x - 2 ^ 64"
      by (simp add: signed_take_bit_eq_take_bit_minus)
    with False s show ?thesis by simp
  qed
qed

lemma cutoff_int:
  fixes a b :: int
  assumes "0 \<le> a" "a < 2 ^ 63" "0 \<le> b" "b < 2 ^ 64"
  shows "saturating_sub_i64 a (if b < 2 ^ 63 then b else b - 2 ^ 64) =
     (if b < 2 ^ 63 then a - b else min (2 ^ 63 - 1) (a + (2 ^ 64 - b)))"
  using assms by (auto simp: saturating_sub_i64_def max_def min_def)

lemma holds_prune_filter:
  "holds_all (prune_filter cutoff) m \<longleftrightarrow> app_state m \<in> {FAILED, FINISHED} \<and> created_at m \<le> cutoff"
  by (auto simp: prune_filter_def)

subsection \<open>The health check\<close>

lemma health_attempts_Some:
  "health_attempts http sleep address token (Suc k) last_error s =
     (case retry (health_probe http address token) (sleep HEALTH_CHECK_RETRY_DELAY) k s of
        (Ok _, s) \<Rightarrow> (Return (Ok ()), s)
      | (Err e, s) \<Rightarrow> (FallThrough (Some e), s))"
proof (induction k arbitrary: last_error s)
  case 0
  show ?case by (cases "health_probe http address token s"; cases "fst (health_probe http address token s)") auto
next
  case (Suc k)
  obtain r s' where c: "health_probe http address token s = (r, s')" by (rule prod.exhaust)
  show ?case
  proof (cases r)
    case (Ok x)
    with c show ?thesis by simp
  next
    case (Err e)
    have "health_attempts http sleep address token (Suc (Suc k)) last_error s =
        health_attempts http sleep address token (Suc k) (Some e) (sleep HEALTH_CHECK_RETRY_DELAY s')"
      by (simp add: health_attempts.simps(2) [of _ _ _ _ "Suc k"] c Err del: health_attempts.simps)
    then show ?thesis unfolding Suc.IH by (simp add: c Err)
  qed
qed

interpretation health: bounded_retry "health_probe http address token"
  "sleep HEALTH_CHECK_RETRY_DELAY" HEALTH_CHECK_RETRIES
  "check_application_health http sleep address token"
  by unfold_locales
    (simp add: check_application_health_def health_attempts_Some del: health_attempts.simps
      split: prod.splits Result.splits)

subsection \<open>The check\<close>

text \<open>A health message as the session sees it, whether the answer is a success, and the state in which the
  \<open>i\<close>th one is sent when they are one second apart.\<close>

definition health_post ::
  "'n http_client \<Rightarrow> string \<Rightarrow> string \<Rightarrow> 'n \<Rightarrow> (StatusCode, string) Result \<times> 'n" where
  "health_post http a t n =
     http_post http (''http://'' @ a @ ''/spark.connect.SparkConnectService/Config'')
       [(''authorization'', ''Bearer '' @ t), (''X-Spark-Plug'', ''health''),
        (''Content-Type'', ''application/grpc''), (''TE'', ''trailers'')] n"

definition answered :: "'n http_client \<Rightarrow> (StatusCode, string) Result \<Rightarrow> bool" where
  "answered http r = (case r of Ok code \<Rightarrow> is_ok (error_for_status http code) | Err _ \<Rightarrow> False)"

fun probe_world ::
  "'n http_client \<Rightarrow> (nat \<Rightarrow> 'd \<times> 'n \<Rightarrow> 'd \<times> 'n) \<Rightarrow> string \<Rightarrow> string \<Rightarrow> nat \<Rightarrow> 'd \<times> 'n \<Rightarrow> 'd \<times> 'n" where
  "probe_world http sleep a t 0 s = s"
| "probe_world http sleep a t (Suc i) s =
     probe_world http sleep a t i (sleep 1000 (fst s, snd (health_post http a t (snd s))))"

definition sound_verdict ::
  "'n http_client \<Rightarrow> (nat \<Rightarrow> 'd \<times> 'n \<Rightarrow> 'd \<times> 'n) \<Rightarrow> Model \<Rightarrow> bool \<Rightarrow> bool" where
  "sound_verdict http sleep app should_fail =
     (case app_address app of
        None \<Rightarrow> should_fail
      | Some a \<Rightarrow> \<exists>s. is_ok (fst (check_application_health http sleep a (app_token app) s)) = (\<not> should_fail))"

definition mark_failed :: "int set \<Rightarrow> Model list \<Rightarrow> Model list" where
  "mark_failed F ms =
     map (\<lambda>m. if app_id m \<in> F then m\<lparr>app_state := FAILED, app_address := None\<rparr> else m) ms"

lemma mark_failed_empty [simp]: "mark_failed {} ms = ms"
  by (simp add: mark_failed_def)

lemma mark_failed_insert: "i \<notin> F \<Longrightarrow> mark_failed F (mark_failed {i} ms) = mark_failed (insert i F) ms"
  by (simp add: mark_failed_def)

lemma update_mark_failed:
  "update_rows check_failed_assigns [CEq ColId (VInt i)] ms = mark_failed {i} ms"
  by (auto simp: update_rows_def mark_failed_def check_failed_assigns_def)

context app_store
begin

lemma health_rows:
  assumes "\<And>k s. rows (fst (sleep k s)) = rows (fst s)"
    and "check_application_health http sleep a t s = (r, s')"
  shows "rows (fst s') = rows (fst s)"
proof -
  have "rows (fst s') = rows (fst s)"
    by (rule retry_invariant [where P = "\<lambda>u. rows (fst u) = rows (fst s)", OF _ _ refl])
      (use assms in \<open>auto simp: health_probe_def health.retry_loop_eq split: prod.splits\<close>)
  then show ?thesis .
qed

lemma check_apps_effect:
  assumes sleep: "\<And>k s. rows (fst (sleep k s)) = rows (fst s)"
    and "distinct (map app_id apps)" and "check_apps db http sleep apps s = (Ok (), s')"
  shows "\<exists>F. F \<subseteq> app_id ` set apps \<and> rows (fst s') = mark_failed F (rows (fst s)) \<and>
     (\<forall>m \<in> set apps. sound_verdict http sleep m (app_id m \<in> F))"
  using assms(2,3)
proof (induction apps arbitrary: s)
  case Nil
  then show ?case by (intro exI [of _ "{}"]) simp
next
  case (Cons app apps)
  let ?v = "case app_address app of
      Some a \<Rightarrow> (case check_application_health http sleep a (app_token app) s of (r, s) \<Rightarrow> (\<not> is_ok r, s))
    | None \<Rightarrow> (True, s)"
  obtain b s1 where v: "?v = (b, s1)" by (rule prod.exhaust)
  have r1: "rows (fst s1) = rows (fst s)"
    using v health_rows [OF sleep] by (auto split: option.splits prod.splits)
  have verdict: "sound_verdict http sleep app b"
  proof (cases "app_address app")
    case None
    with v show ?thesis by (simp add: sound_verdict_def)
  next
    case (Some a)
    with v have "is_ok (fst (check_application_health http sleep a (app_token app) s)) = (\<not> b)"
      by (auto split: prod.splits)
    then show ?thesis unfolding sound_verdict_def Some option.case by (rule exI)
  qed
  have id: "app_id app \<notin> app_id ` set apps" and dist: "distinct (map app_id apps)"
    using Cons.prems(1) by auto
  have step: "check_apps db http sleep (app # apps) s =
      (if b then (case db_update db (app_id app) check_failed_assigns (fst s1) of
               (Err e, d) \<Rightarrow> (Err (Failed e), d, snd s1)
             | (Ok _, d) \<Rightarrow> check_apps db http sleep apps (d, snd s1))
       else check_apps db http sleep apps s1)"
    using v by simp
  show ?case
  proof (cases b)
    case False
    with step Cons.prems(2) Cons.IH [OF dist, of s1] obtain F where F: "F \<subseteq> app_id ` set apps"
      "rows (fst s') = mark_failed F (rows (fst s1))" "\<forall>m \<in> set apps. sound_verdict http sleep m (app_id m \<in> F)"
      by auto
    with id have "app_id app \<notin> F" by blast
    with F verdict False r1 show ?thesis by (intro exI [of _ F]) auto
  next
    case True
    obtain q d where q: "db_update db (app_id app) check_failed_assigns (fst s1) = (q, d)" by (rule prod.exhaust)
    with step True Cons.prems(2) obtain m where m: "q = Ok m" and rest: "check_apps db http sleep apps (d, snd s1) = (Ok (), s')"
      by (cases q) auto
    have "rows d = mark_failed {app_id app} (rows (fst s))"
      using update_OkD [OF q [unfolded m]] r1 by (simp add: update_mark_failed)
    with Cons.IH [OF dist rest] obtain F where F: "F \<subseteq> app_id ` set apps"
      "rows (fst s') = mark_failed F (mark_failed {app_id app} (rows (fst s)))"
      "\<forall>m \<in> set apps. sound_verdict http sleep m (app_id m \<in> F)" by auto
    have out: "app_id app \<notin> F" using F(1) id by blast
    have "sound_verdict http sleep m (app_id m \<in> insert (app_id app) F)" if "m \<in> set (app # apps)" for m
    proof (cases "m = app")
      case True
      with verdict \<open>b\<close> show ?thesis by simp
    next
      case False
      with that have m: "m \<in> set apps" by simp
      then have "app_id m \<noteq> app_id app" using id by (metis imageI)
      with m F(3) show ?thesis by simp
    qed
    then show ?thesis
      using F(1,2) mark_failed_insert [OF out] by (intro exI [of _ "insert (app_id app) F"]) auto
  qed
qed

end

lemma prune_cutoff_eq:
  assumes "uint now < 2 ^ 63"
  shows "prune_cutoff_secs now older =
     (if uint older < 2 ^ 63 then uint now - uint older
      else min (2 ^ 63 - 1) (uint now + (2 ^ 64 - uint older)))"
proof -
  have "uint older < 2 ^ 64" using uint_lt2p [of older] by simp
  from cutoff_int [OF uint_ge_0 assms uint_ge_0 this] assms show ?thesis
    by (simp only: prune_cutoff_secs_def sint_u64 if_True)
qed

section \<open>Properties\<close>

text \<open>C30: the cutoff of \<open>prune\<close>. With the clock in the signed range, the cutoff is \<open>older_than_seconds\<close>
  before now for thresholds below \<open>2 ^ 63\<close>; a larger threshold wraps to a negative number and
  puts the cutoff in the future (or at the largest timestamp), so that \<open>--seconds\<close> with the
  largest value selects all applications instead of none.\<close>

theorem prune_cutoff_wraps:
  assumes "uint now < 2 ^ 63"
  shows "prune_cutoff_secs now older =
     (if uint older < 2 ^ 63 then uint now - uint older
      else min (2 ^ 63 - 1) (uint now + (2 ^ 64 - uint older)))"
  using assms by (rule prune_cutoff_eq)

theorem prune_cutoff_wraps_witness:
  "prune_cutoff_secs 1771000000 86400 = 1770913600 \<and>
   prune_cutoff_secs 1771000000 18446744073709551615 = 1771000001"
  using prune_cutoff_wraps [of 1771000000 86400] prune_cutoff_wraps [of 1771000000 18446744073709551615] by simp

text \<open>C29: \<open>prune\<close> deletes exactly the FAILED and FINISHED applications created at or before the
  cutoff and keeps all others, in particular every LAUNCHING and RUNNING one, for thresholds in
  the signed range; if it reports an error, no application is deleted. The migrator leaves the
  rows alone and \<open>from_timestamp\<close> counts nanoseconds.\<close>

theorem prune_exact:
  assumes "app_store db rows" and "\<And>ms d r d'. up ms d = (r, d') \<Longrightarrow> rows d' = rows d"
    and "uint now < 2 ^ 63" and "uint older < 2 ^ 63"
    and "\<And>secs t. from_timestamp secs = Some t \<Longrightarrow> t = secs * 10 ^ 9"
    and run: "prune db up (Ok now) from_timestamp older d = (r, d')"
  shows "rows d' = (if is_ok r
     then filter (\<lambda>m. \<not> (app_state m \<in> {FAILED, FINISHED} \<and>
                           created_at m \<le> (uint now - uint older) * 10 ^ 9)) (rows d)
     else rows d)"
proof -
  obtain e d1 where e: "ensure_db up d = (e, d1)" by (rule prod.exhaust)
  have r1: "rows d1 = rows d"
    using e assms(2) by (auto simp: ensure_db_def split: prod.splits Result.splits)
  have cut: "prune_cutoff_secs now older = uint now - uint older"
    using prune_cutoff_eq [OF assms(3)] assms(4) by simp
  show ?thesis
  proof (cases "is_ok e \<and> from_timestamp (uint now - uint older) \<noteq> None")
    case False
    with run e r1 cut show ?thesis by (auto simp: prune_def is_ok_iff split: Result.splits)
  next
    case True
    then obtain t where t: "from_timestamp (uint now - uint older) = Some t" by blast
    obtain q d2 where q: "db_delete_many db (prune_filter t) d1 = (q, d2)" by (rule prod.exhaust)
    have run2: "d' = d2 \<and> is_ok r = is_ok q"
      using run e True t q cut by (cases e; cases q) (auto simp: prune_def)
    show ?thesis
    proof (cases q)
      case (Ok n)
      have "rows d2 = delete_rows (prune_filter t) (rows d)"
        using app_store.delete_many_OkD(1) [OF assms(1) q [unfolded Ok]] r1 by simp
      with run2 Ok assms(5) [OF t] show ?thesis by (simp add: delete_rows_def holds_prune_filter)
    next
      case (Err m)
      with app_store.delete_many_ErrD [OF assms(1)] q r1 run2 show ?thesis by simp
    qed
  qed
qed

theorem prune_exact_witness:
  "case prune mem_db (\<lambda>ms d. (Ok (), d)) (Ok 100) (\<lambda>s. Some (s * 10 ^ 9)) 10
     (demo_mem\<lparr>table := [demo_app, demo_app\<lparr>app_state := FINISHED\<rparr>]\<rparr>) of
     (r, d) \<Rightarrow> is_ok r \<and> table d = [demo_app]"
proof -
  let ?d = "demo_mem\<lparr>table := [demo_app, demo_app\<lparr>app_state := FINISHED\<rparr>]\<rparr>"
  obtain r d where run: "prune mem_db (\<lambda>ms d. (Ok (), d)) (Ok 100) (\<lambda>s. Some (s * 10 ^ 9)) 10 ?d = (r, d)"
    by (rule prod.exhaust)
  then have ok: "is_ok r"
    by (auto simp: prune_def ensure_db_def mem_db_def with_fault_def demo_mem_def)
  have app: "app_state demo_app = RUNNING" "created_at demo_app = 0"
    by (simp_all add: demo_app_def blank_row_def)
  from prune_exact [OF mem.app_store_axioms _ _ _ _ run] ok run app show ?thesis by simp
qed

text \<open>The health check of one session probes at most four times; it fails exactly when all four
  probes fail, with the error of the last one.\<close>

lemma health_check_outcome:
  fixes sleep :: "nat \<Rightarrow> 'd \<times> 'n \<Rightarrow> 'd \<times> 'n"
  assumes "st = (\<lambda>i. retry_state (health_probe http a t) (sleep 1000) i s)"
  shows "(is_ok (fst (check_application_health http sleep a t s)) \<longleftrightarrow>
            (\<exists>i \<le> 3. is_ok (fst (health_probe http a t (st i))))) \<and>
         (\<not> is_ok (fst (check_application_health http sleep a t s)) \<longrightarrow>
            check_application_health http sleep a t s = health_probe http a t (st 3))"
proof -
  note defs = assms HEALTH_CHECK_RETRY_DELAY_def HEALTH_CHECK_RETRIES_def
  show ?thesis
  proof (cases rule: health.loop_cases [of http sleep a t s])
    case (success i x u)
    then have "\<exists>i \<le> 3. is_ok (fst (health_probe http a t (st i)))"
      by (intro exI [of _ i]) (simp add: defs)
    with success show ?thesis by simp
  next
    case exhausted
    from exhausted(2) have none: "\<not> is_ok (fst (health_probe http a t (st i)))" if "i \<le> 3" for i
      using that by (simp add: defs)
    from exhausted(1) have "check_application_health http sleep a t s = health_probe http a t (st 3)"
      by (simp add: defs)
    with none show ?thesis by (metis order_refl)
  qed
qed

text \<open>When \<open>check\<close> succeeds, there is a set of RUNNING applications that became FAILED without an address
  while every other row is as before; an application without an address is in the set, and the
  others are decided by their health check.\<close>

lemma check_verdicts:
  assumes "app_store db rows" and "\<And>ms d r d'. up ms d = (r, d') \<Longrightarrow> rows d' = rows d"
    and "\<And>k s. rows (fst (sleep k s)) = rows (fst s)" and "distinct (map app_id (rows d))"
    and "check db up http sleep (d, n) = (Ok (), s')"
  shows "\<exists>F. F \<subseteq> app_id ` {m \<in> set (rows d). app_state m = RUNNING} \<and>
     rows (fst s') = mark_failed F (rows d) \<and>
     (\<forall>m \<in> set (rows d). app_state m = RUNNING \<longrightarrow> sound_verdict http sleep m (app_id m \<in> F))"
proof -
  let ?run = "[CEq ColState (VState RUNNING)]"
  obtain e d1 where e: "ensure_db up d = (e, d1)" by (rule prod.exhaust)
  have r1: "rows d1 = rows d"
    using e assms(2) by (auto simp: ensure_db_def split: prod.splits Result.splits)
  obtain q d2 where q: "db_all db ?run d1 = (q, d2)" by (rule prod.exhaust)
  obtain apps where apps: "q = Ok apps" and run: "check_apps db http sleep apps (d2, n) = (Ok (), s')"
    using assms(5) e q by (cases e; cases q) (auto simp: check_def)
  note all = app_store.all_OkD [OF assms(1) q [unfolded apps]]
  have "mset (map app_id apps) = mset (map app_id (matching ?run (rows d)))"
    using all(2) r1 by simp
  moreover have "distinct (map app_id (matching ?run (rows d)))"
    unfolding matching_def by (rule distinct_map_filter [OF assms(4)])
  ultimately have dist: "distinct (map app_id apps)" by (metis mset_eq_imp_distinct_iff)
  have set: "set apps = {m \<in> set (rows d). app_state m = RUNNING}" using all(3) r1 by simp
  from app_store.check_apps_effect [OF assms(1,3) dist run] set all(1) r1 show ?thesis by auto
qed

lemma health_probe_answered:
  "client_build http = Ok () \<Longrightarrow>
   is_ok (fst (health_probe http a t s)) = answered http (fst (health_post http a t (snd s))) \<and>
   snd (health_probe http a t s) = (fst s, snd (health_post http a t (snd s)))"
  by (cases "health_post http a t (snd s)"; cases "fst (health_post http a t (snd s))")
    (simp_all add: health_probe_def send_session_message_def session_url_def session_headers_def health_post_def answered_def)

lemma retry_state_health:
  assumes "client_build http = Ok ()"
  shows "retry_state (health_probe http a t) (sleep 1000) i s = probe_world http sleep a t i s"
  by (induction i arbitrary: s) (simp_all add: health_probe_answered [OF assms])

lemma health_verdict:
  assumes "client_build http = Ok ()"
  shows "is_ok (fst (check_application_health http sleep a t s)) \<longleftrightarrow>
     (\<exists>i \<le> 3. answered http (fst (health_post http a t (snd (probe_world http sleep a t i s)))))"
  using health_check_outcome [OF refl, where http = http and a = a and t = t and sleep = sleep and s = s]
  by (simp add: health_probe_answered [OF assms] retry_state_health [OF assms])

text \<open>C28: what \<open>check\<close> does to the table. Let \<open>alive\<close> be the tokens whose sessions answer: from any state at
  least one of four health messages, one second apart, gets a success status, while a session that
  is not alive never answers one. A health message is a POST to the session's address with the
  token and the header \<open>X-Spark-Plug: health\<close>. Then a successful \<open>check\<close> makes exactly the RUNNING
  applications that have no address or whose session is not alive FAILED without an address, and
  leaves every other row as it is. Keys are unique, the migrations and the other tasks do not
  write to the table meanwhile, and the HTTP client can be built.\<close>

theorem check_marks_unreachable:
  assumes "app_store db rows" and "\<And>ms d r d'. up ms d = (r, d') \<Longrightarrow> rows d' = rows d"
    and "\<And>k s. rows (fst (sleep k s)) = rows (fst s)" and "distinct (map app_id (rows d))"
    and "client_build http = Ok ()"
    and dead: "\<And>m a n. m \<in> set (rows d) \<Longrightarrow> app_address m = Some a \<Longrightarrow> \<not> alive (app_token m) \<Longrightarrow>
      \<not> answered http (fst (health_post http a (app_token m) n))"
    and live: "\<And>m a s. m \<in> set (rows d) \<Longrightarrow> app_address m = Some a \<Longrightarrow> alive (app_token m) \<Longrightarrow>
      \<exists>i \<le> 3. answered http (fst (health_post http a (app_token m) (snd (probe_world http sleep a (app_token m) i s))))"
    and "check db up http sleep (d, n) = (Ok (), s')"
  shows "rows (fst s') =
     map (\<lambda>m. if app_state m = RUNNING \<and> (app_address m = None \<or> \<not> alive (app_token m))
              then m\<lparr>app_state := FAILED, app_address := None\<rparr> else m) (rows d)"
proof -
  have "\<exists>F. F \<subseteq> app_id ` {m \<in> set (rows d). app_state m = RUNNING} \<and> rows (fst s') = mark_failed F (rows d) \<and>
     (\<forall>m \<in> set (rows d). app_state m = RUNNING \<longrightarrow> sound_verdict http sleep m (app_id m \<in> F))"
    by (rule check_verdicts [OF assms(1) _ assms(3,4,8)]) (rule assms(2))
  then obtain F where F: "F \<subseteq> app_id ` {m \<in> set (rows d). app_state m = RUNNING}"
    and rows: "rows (fst s') = mark_failed F (rows d)"
    and verdict: "\<forall>m \<in> set (rows d). app_state m = RUNNING \<longrightarrow> sound_verdict http sleep m (app_id m \<in> F)"
    by (elim exE conjE)
  have "app_id m \<in> F \<longleftrightarrow> app_state m = RUNNING \<and> (app_address m = None \<or> \<not> alive (app_token m))"
    if m: "m \<in> set (rows d)" for m
  proof (cases "app_state m = RUNNING")
    case True
    show ?thesis
    proof (cases "app_address m")
      case (Some a)
      from bspec [OF verdict m] True Some obtain s where
        "is_ok (fst (check_application_health http sleep a (app_token m) s)) = (app_id m \<notin> F)"
        unfolding sound_verdict_def by auto
      then have "app_id m \<notin> F \<longleftrightarrow> alive (app_token m)"
        using dead [OF m Some] live [OF m Some, of s] health_verdict [OF assms(5), of sleep a "app_token m" s]
        by (cases "alive (app_token m)") simp_all
      with True Some show ?thesis by auto
    qed (use bspec [OF verdict m] True in \<open>simp add: sound_verdict_def\<close>)
  next
    case False
    have "x = m" if "x \<in> set (rows d)" "app_id x = app_id m" for x
      using that m assms(4) by (auto simp: distinct_map inj_on_def)
    with False F show ?thesis by auto
  qed
  then show ?thesis unfolding rows mark_failed_def by (intro map_cong refl) simp
qed

text \<open>A network in which only the session at \<open>h:3\<close> answers, to health messages, from the third one on.\<close>

definition demo_http :: "nat http_client" where
  "demo_http = \<lparr>client_build = Ok (),
     http_post = (\<lambda>url hs n. (if url = ''http://h:3/spark.connect.SparkConnectService/Config'' \<and>
        (''X-Spark-Plug'', ''health'') \<in> set hs \<and> 2 \<le> n then Ok 200 else Err ''refused'', Suc n)),
     error_for_status = (\<lambda>code. if code < 400 then Ok () else Err ''status'')\<rparr>"

definition demo_sessions :: mem where
  "demo_sessions = demo_mem\<lparr>table := [demo_app\<lparr>app_address := None\<rparr>,
     demo_app\<lparr>app_id := 2, app_token := ''t2'', app_address := Some ''h:2''\<rparr>,
     demo_app\<lparr>app_id := 3, app_token := ''t3'', app_address := Some ''h:3''\<rparr>,
     demo_app\<lparr>app_id := 4, app_token := ''t4'', app_address := None, app_state := LAUNCHING\<rparr>]\<rparr>"

theorem check_marks_unreachable_witness:
  "case check mem_db (\<lambda>ms d. (Ok (), d)) demo_http (\<lambda>k s. s) (demo_sessions, 0) of
     (r, d, n) \<Rightarrow> r = Ok () \<and> map app_state (table d) = [FAILED, FAILED, RUNNING, LAUNCHING]"
proof -
  note app = demo_app_def blank_row_def
  obtain r s where run: "check mem_db (\<lambda>ms d. (Ok (), d)) demo_http (\<lambda>k s. s) (demo_sessions, 0) = (r, s)"
    by (rule prod.exhaust)
  have "fst (check mem_db (\<lambda>ms d. (Ok (), d)) demo_http (\<lambda>k s. s) (demo_sessions, 0)) = Ok ()" by code_simp
  with run have ok: "r = Ok ()" by simp
  have dead: "\<not> answered demo_http (fst (health_post demo_http a (app_token m) n))"
    if "m \<in> set (table demo_sessions)" "app_address m = Some a" "app_token m \<noteq> ''t3''" for m a n
    using that by (auto simp: demo_sessions_def demo_http_def health_post_def answered_def app)
  have live: "\<exists>i \<le> 3. answered demo_http (fst (health_post demo_http a (app_token m)
      (snd (probe_world demo_http (\<lambda>k s. s) a (app_token m) i s))))"
    if "m \<in> set (table demo_sessions)" "app_address m = Some a" "app_token m = ''t3''" for m a and s :: "mem \<times> nat"
    using that by (intro exI [of _ 2])
      (auto simp: demo_sessions_def demo_http_def health_post_def answered_def app numeral_2_eq_2)
  have d: "distinct (map app_id (table demo_sessions))" "client_build demo_http = Ok ()"
    by (simp_all add: demo_sessions_def demo_http_def app)
  have "table (fst s) = map (\<lambda>m. if app_state m = RUNNING \<and> (app_address m = None \<or> app_token m \<noteq> ''t3'')
      then m\<lparr>app_state := FAILED, app_address := None\<rparr> else m) (table demo_sessions)"
    by (rule check_marks_unreachable [where alive = "\<lambda>t. t = ''t3''", OF mem.app_store_axioms _ _ d _ _ run [unfolded ok]])
      (simp, simp, rule dead, assumption+, rule live, assumption+)
  with run ok show ?thesis by (cases s) (simp add: demo_sessions_def app)
qed

end
