(* ===== verification/Shutdown.thy ===== *)
theory Shutdown
  imports Server
begin

text \<open>
  Running the server (\<open>Server::run\<close>, \<open>serve_connection\<close> and \<open>shutdown_signal\<close> of
  \<open>server/src/lib.rs\<close>): the start, and then the accept loop, the connection tasks and the graceful
  shutdown as a state machine. Of the two \<open>watch\<close> channels the model keeps what the program uses, the
  number of receivers, which is changed where the source clones or drops one: \<open>signal_rx\<close> is
  dropped by the task of the shutdown signal, \<open>close_rx\<close> is cloned for every connection task and
  dropped by the task at its end and by \<open>run\<close> after its loop or when it is left early. An event is
  one resumption of one task; which events happen, and in which order, is up to the network and the
  scheduler.
\<close>

section \<open>Definitions\<close>

definition bind_address :: "ProxyConfig \<Rightarrow> string" where
  "bind_address config =
     unwrap_or (bind_host config) ''0.0.0.0'' @ '':'' @ show_nat (unat (get_bind_port config))"

text \<open>What \<open>run\<close> does before the loop: migrations, the Kerberos task, binding the listener, and its local
  address, whose \<open>unwrap\<close> may panic.\<close>

definition run_start ::
  "(Migration list \<Rightarrow> 'd \<Rightarrow> (unit, DbErr) Result \<times> 'd) \<Rightarrow> host \<Rightarrow> (string \<Rightarrow> ('l, string) Result)
   \<Rightarrow> ('l \<Rightarrow> (string, string) Result) \<Rightarrow> ProxyConfig \<Rightarrow> 'd \<Rightarrow> ('l, server_error) Result \<times> 'd" where
  "run_start up os bind local_addr config d =
     (case ensure_db up d of
        (Err e, d) \<Rightarrow> (Err e, d)
      | (Ok _, d) \<Rightarrow>
     (case (case kerberos_config config of
              None \<Rightarrow> Ok ()
            | Some k \<Rightarrow> (case kerberos_creds_task os k of
                          Err (Panic p) \<Rightarrow> Err (ServerPanic p)
                        | Ok _ \<Rightarrow> Ok ())) of
        Err e \<Rightarrow> (Err e, d)
      | Ok _ \<Rightarrow>
     (case bind (bind_address config) of
        Err e \<Rightarrow> (Err (Failed e), d)
      | Ok listener \<Rightarrow>
     (case local_addr listener of
        Err e \<Rightarrow> (Err (ServerPanic e), d)
      | Ok _ \<Rightarrow> (Ok listener, d)))))"

text \<open>Where \<open>run\<close> is: in its loop, waiting in \<open>close_tx.closed()\<close>, or returned (or panicked).\<close>

datatype control = Looping | AwaitingClose | Returned "(unit, server_error) Result"

text \<open>A connection task has been spawned and not yet run, serves its connection, has told it to shut down,
  or has ended. It draws the id of its \<open>ProxyService\<close> when it first runs.\<close>

datatype phase = Spawned | Serving | Draining | Closed

record conn_task =
  service_id :: "u64 option"
  conn_phase :: phase

record srv =
  signal_rx :: nat
  close_rx :: nat
  control :: control
  tasks :: "conn_task list"
  next_service :: u64

definition init_srv :: srv where
  "init_srv = \<lparr>signal_rx = 1, close_rx = 1, control = Looping, tasks = [], next_service = 1\<rparr>"

datatype event =
    Signal
  | AcceptOk "(unit, string) Result"
  | AcceptErr string
  | LoopSeesSignal
  | TaskStarts nat
  | TaskSeesSignal nat
  | ConnEnds nat
  | AllClosed

text \<open>\<open>serve_connection\<close>: clone \<open>close_rx\<close> and spawn the task.\<close>

definition serve_connection :: "srv \<Rightarrow> srv" where
  "serve_connection s =
     s\<lparr>close_rx := Suc (close_rx s),
       tasks := tasks s @ [\<lparr>service_id = None, conn_phase = Spawned\<rparr>]\<rparr>"

definition set_task :: "nat \<Rightarrow> conn_task \<Rightarrow> srv \<Rightarrow> srv" where
  "set_task i t s = s\<lparr>tasks := (tasks s)[i := t]\<rparr>"

text \<open>The first turn of a connection task.\<close>

definition task_starts :: "nat \<Rightarrow> srv \<Rightarrow> srv" where
  "task_starts i s =
     (case ProxyService_new (next_service s) of
        (k, counter) \<Rightarrow>
          (set_task i \<lparr>service_id = Some k, conn_phase = Serving\<rparr> s)\<lparr>next_service := counter\<rparr>)"

definition set_phase :: "nat \<Rightarrow> phase \<Rightarrow> srv \<Rightarrow> srv" where
  "set_phase i p s = set_task i ((tasks s ! i)\<lparr>conn_phase := p\<rparr>) s"

definition drop_close_rx :: "srv \<Rightarrow> srv" where
  "drop_close_rx s = s\<lparr>close_rx := close_rx s - 1\<rparr>"

text \<open>\<open>run\<close> is left early, with \<open>?\<close> or by a panic: its locals are dropped.\<close>

definition leave_run :: "server_error \<Rightarrow> srv \<Rightarrow> srv" where
  "leave_run e s = (drop_close_rx s)\<lparr>control := Returned (Err e)\<rparr>"

text \<open>One event; \<open>None\<close> when it cannot happen. \<open>Signal\<close> is the end of the task that waits in \<open>shutdown_signal\<close>. \<open>with_tls\<close> says whether there is a TLS acceptor; then the
  argument of \<open>AcceptOk\<close> is the outcome of the handshake. \<open>closed()\<close> of a sender is ready when no
  receiver is left; the one of a connection task is fused, so the task reacts to it once.\<close>

fun srv_step :: "bool \<Rightarrow> event \<Rightarrow> srv \<Rightarrow> srv option" where
  "srv_step with_tls Signal s =
     (if 0 < signal_rx s then Some (s\<lparr>signal_rx := signal_rx s - 1\<rparr>) else None)"
| "srv_step with_tls (AcceptOk handshake) s =
     (if control s = Looping then
        (if with_tls then
           (case handshake of
              Err e \<Rightarrow> Some (leave_run (Failed e) s)
            | Ok _ \<Rightarrow> Some (serve_connection s))
         else Some (serve_connection s))
      else None)"
| "srv_step with_tls (AcceptErr e) s =
     (if control s = Looping then Some (leave_run (ServerPanic e) s) else None)"
| "srv_step with_tls LoopSeesSignal s =
     (if control s = Looping \<and> signal_rx s = 0
      then Some ((drop_close_rx s)\<lparr>control := AwaitingClose\<rparr>) else None)"
| "srv_step with_tls (TaskStarts i) s =
     (if i < length (tasks s) \<and> conn_phase (tasks s ! i) = Spawned
      then Some (task_starts i s) else None)"
| "srv_step with_tls (TaskSeesSignal i) s =
     (if i < length (tasks s) \<and> conn_phase (tasks s ! i) = Serving \<and> signal_rx s = 0
      then Some (set_phase i Draining s) else None)"
| "srv_step with_tls (ConnEnds i) s =
     (if i < length (tasks s) \<and> conn_phase (tasks s ! i) \<in> {Serving, Draining}
      then Some (drop_close_rx (set_phase i Closed s)) else None)"
| "srv_step with_tls AllClosed s =
     (if control s = AwaitingClose \<and> close_rx s = 0
      then Some (s\<lparr>control := Returned (Ok ())\<rparr>) else None)"

inductive srv_run :: "bool \<Rightarrow> srv \<Rightarrow> event list \<Rightarrow> srv \<Rightarrow> bool" for with_tls where
  run_refl: "srv_run with_tls s [] s"
| run_step: "srv_step with_tls e s = Some s' \<Longrightarrow> srv_run with_tls s' es s'' \<Longrightarrow> srv_run with_tls s (e # es) s''"

inductive_simps srv_run_simps:
  "srv_run with_tls s [] s'"
  "srv_run with_tls s (e # es) s'"

subsection \<open>Vocabulary of the properties\<close>

text \<open>The accepted connections of a run, and its tasks in the order in which they first ran.\<close>

fun accepts :: "bool \<Rightarrow> event \<Rightarrow> bool" where
  "accepts with_tls (AcceptOk h) = (with_tls \<longrightarrow> is_ok h)"
| "accepts with_tls e = False"

fun starts :: "event list \<Rightarrow> nat list" where
  "starts [] = []"
| "starts (TaskStarts i # es) = i # starts es"
| "starts (e # es) = starts es"

definition open_tasks :: "srv \<Rightarrow> nat" where
  "open_tasks s = length (filter (\<lambda>t. conn_phase t \<noteq> Closed) (tasks s))"

text \<open>How the state of a run is related to its events so far.\<close>

definition srv_inv :: "bool \<Rightarrow> event list \<Rightarrow> srv \<Rightarrow> bool" where
  "srv_inv with_tls es s \<longleftrightarrow>
     close_rx s = (if control s = Looping then 1 else 0) + open_tasks s \<and>
     (signal_rx s = 0 \<longrightarrow> Signal \<in> set es) \<and>
     (control s \<in> {AwaitingClose, Returned (Ok ())} \<longrightarrow> signal_rx s = 0) \<and>
     (control s = Returned (Ok ()) \<longrightarrow> open_tasks s = 0) \<and>
     length (tasks s) = length (filter (accepts with_tls) es) \<and>
     (\<forall>i < length (tasks s). (conn_phase (tasks s ! i) \<noteq> Spawned \<longrightarrow> i \<in> set (starts es)) \<and>
        (conn_phase (tasks s ! i) = Closed \<longrightarrow> ConnEnds i \<in> set es))"

definition ids_inv :: "event list \<Rightarrow> srv \<Rightarrow> bool" where
  "ids_inv es s \<longleftrightarrow>
     set (starts es) \<subseteq> {i. i < length (tasks s) \<and> conn_phase (tasks s ! i) \<noteq> Spawned} \<and>
     map (\<lambda>i. service_id (tasks s ! i)) (starts es) = map (\<lambda>k. Some (of_nat (Suc k))) [0..<length (starts es)] \<and>
     next_service s = of_nat (Suc (length (starts es)))"

text \<open>How many events are still possible once the loop has ended.\<close>

fun phase_weight :: "phase \<Rightarrow> nat" where
  "phase_weight Spawned = 3"
| "phase_weight Serving = 2"
| "phase_weight Draining = 1"
| "phase_weight Closed = 0"

definition remaining :: "srv \<Rightarrow> nat" where
  "remaining s = sum_list (map (\<lambda>t. phase_weight (conn_phase t)) (tasks s))
     + (if control s = AwaitingClose then 1 else 0) + signal_rx s"

section \<open>Lemmas\<close>

lemma starts_append [simp]: "starts (es @ fs) = starts es @ starts fs"
  by (induction es rule: starts.induct) auto

lemma starts_iff: "i \<in> set (starts es) \<longleftrightarrow> TaskStarts i \<in> set es"
  by (induction es rule: starts.induct) auto

lemmas srv_defs = serve_connection_def set_task_def task_starts_def set_phase_def drop_close_rx_def
  leave_run_def ProxyService_new_def

lemma open_tasks_append:
  "open_tasks (s\<lparr>tasks := tasks s @ [t]\<rparr>) = open_tasks s + (if conn_phase t = Closed then 0 else 1)"
  by (simp add: open_tasks_def)

lemma open_tasks_update:
  assumes "i < length (tasks s)"
  shows "open_tasks (s\<lparr>tasks := (tasks s)[i := t]\<rparr>) + (if conn_phase (tasks s ! i) = Closed then 0 else 1) =
     open_tasks s + (if conn_phase t = Closed then 0 else 1)"
proof -
  let ?P = "\<lambda>t. conn_phase t \<noteq> Closed"
  have "length (filter ?P (xs[i := t])) + (if ?P (xs ! i) then 1 else 0) =
      length (filter ?P xs) + (if ?P t then 1 else 0)" if "i < length xs" for xs
    using that
  proof (induction xs arbitrary: i)
    case (Cons x xs)
    then show ?case by (cases i) (use Cons.IH [of "i - 1"] in auto)
  qed simp
  from this [OF assms] show ?thesis by (auto simp: open_tasks_def split: if_splits)
qed

lemma open_tasks_0: "open_tasks s = 0 \<longleftrightarrow> list_all (\<lambda>t. conn_phase t = Closed) (tasks s)"
  by (auto simp: open_tasks_def filter_empty_conv list_all_iff)

lemma srv_inv_init: "srv_inv with_tls [] init_srv" "ids_inv [] init_srv"
  by (simp_all add: srv_inv_def ids_inv_def init_srv_def open_tasks_def)

text \<open>What the events of one task keep of the invariants.\<close>

lemma srv_inv_task:
  assumes "srv_inv with_tls es s" and i: "i < length (tasks s)" "conn_phase (tasks s ! i) \<noteq> Closed"
    and "conn_phase t \<noteq> Closed" and "conn_phase t \<noteq> Spawned" and "i \<in> set (starts (es @ [e]))"
    and "\<not> accepts with_tls e"
  shows "srv_inv with_tls (es @ [e]) (set_task i t s)"
proof -
  have "open_tasks (set_task i t s) = open_tasks s"
    using open_tasks_update [OF i(1), of t] i(2) assms(4) by (simp add: set_task_def)
  then show ?thesis
    using assms(1,4-7) i by (auto simp: srv_inv_def set_task_def nth_list_update)
qed

lemma srv_inv_step:
  assumes inv: "srv_inv with_tls es s" and st: "srv_step with_tls e s = Some s'"
  shows "srv_inv with_tls (es @ [e]) s'"
proof (cases e)
  case Signal
  with assms show ?thesis by (auto simp: srv_inv_def open_tasks_def split: if_splits)
next
  case (AcceptOk h)
  have "srv_inv with_tls (es @ [e]) (serve_connection s)" if "control s = Looping" "accepts with_tls e"
    using inv that
    by (auto simp: srv_inv_def serve_connection_def open_tasks_def nth_append less_Suc_eq)
  moreover have "srv_inv with_tls (es @ [e]) (leave_run x s)" if "control s = Looping" "\<not> accepts with_tls e" for x
    using inv that by (auto simp: srv_inv_def srv_defs open_tasks_def)
  ultimately show ?thesis
    using AcceptOk st by (auto split: if_splits Result.splits)
next
  case (AcceptErr m)
  with assms show ?thesis by (auto simp: srv_inv_def srv_defs open_tasks_def split: if_splits)
next
  case LoopSeesSignal
  with assms show ?thesis by (auto simp: srv_inv_def srv_defs open_tasks_def split: if_splits)
next
  case (TaskStarts i)
  then have "srv_inv with_tls (es @ [e]) (set_task i \<lparr>service_id = Some (next_service s), conn_phase = Serving\<rparr> s)"
    using st by (intro srv_inv_task [OF inv]) (auto split: if_splits)
  then show ?thesis
    using TaskStarts st by (auto simp: srv_inv_def task_starts_def ProxyService_new_def open_tasks_def split: if_splits)
next
  case (TaskSeesSignal i)
  then have i: "i < length (tasks s)" "conn_phase (tasks s ! i) = Serving"
    and s': "s' = set_task i ((tasks s ! i)\<lparr>conn_phase := Draining\<rparr>) s"
    using st by (auto simp: set_phase_def split: if_splits)
  from i inv have "i \<in> set (starts es)" by (simp add: srv_inv_def)
  with i show ?thesis
    unfolding s' TaskSeesSignal by (intro srv_inv_task [OF inv]) simp_all
next
  case (ConnEnds i)
  then have i: "i < length (tasks s)" "conn_phase (tasks s ! i) \<in> {Serving, Draining}"
    and s': "s' = drop_close_rx (set_phase i Closed s)" using st by (auto split: if_splits)
  have "Suc (open_tasks s') = open_tasks s"
    using open_tasks_update [OF i(1), of "(tasks s ! i)\<lparr>conn_phase := Closed\<rparr>"] i(2)
    by (auto simp: s' srv_defs open_tasks_def)
  then show ?thesis
    using inv i ConnEnds by (auto simp: srv_inv_def s' srv_defs nth_list_update)
next
  case AllClosed
  with assms show ?thesis by (auto simp: srv_inv_def open_tasks_def split: if_splits)
qed

lemma ids_inv_other:
  assumes inv: "ids_inv es s" and "starts fs = []" and "next_service s' = next_service s"
    and same: "\<And>j. j < length (tasks s) \<Longrightarrow> conn_phase (tasks s ! j) \<noteq> Spawned \<Longrightarrow>
      j < length (tasks s') \<and> conn_phase (tasks s' ! j) \<noteq> Spawned \<and> service_id (tasks s' ! j) = service_id (tasks s ! j)"
  shows "ids_inv (es @ fs) s'"
proof -
  have "map (\<lambda>j. service_id (tasks s' ! j)) (starts es) = map (\<lambda>j. service_id (tasks s ! j)) (starts es)"
    by (rule map_cong [OF refl]) (use inv same in \<open>auto simp: ids_inv_def\<close>)
  with assms show ?thesis by (auto simp: ids_inv_def)
qed

lemma ids_inv_step:
  assumes inv: "ids_inv es s" and st: "srv_step with_tls e s = Some s'"
  shows "ids_inv (es @ [e]) s'"
proof (cases "\<exists>i. e = TaskStarts i")
  case True
  then obtain i where e: "e = TaskStarts i" by blast
  then have i: "i < length (tasks s)" "conn_phase (tasks s ! i) = Spawned" and s': "s' = task_starts i s"
    using st by (auto split: if_splits)
  then have new: "i \<notin> set (starts es)" using inv by (auto simp: ids_inv_def)
  have "tasks s' ! j = tasks s ! j" if "j \<in> set (starts es)" for j
    using that new by (cases "j = i") (auto simp: s' srv_defs)
  then have "map (\<lambda>j. service_id (tasks s' ! j)) (starts es) = map (\<lambda>j. service_id (tasks s ! j)) (starts es)"
    by simp
  with inv i e show ?thesis
    by (auto simp: ids_inv_def s' srv_defs nth_list_update)
next
  case False
  with st show ?thesis
    by (intro ids_inv_other [OF inv]; cases e)
      (auto simp: srv_defs nth_append nth_list_update split: if_splits Result.splits)
qed

lemma srv_inv_run:
  "srv_run with_tls s fs s' \<Longrightarrow> srv_inv with_tls es s \<Longrightarrow> srv_inv with_tls (es @ fs) s'"
  "srv_run with_tls s fs s' \<Longrightarrow> ids_inv es s \<Longrightarrow> ids_inv (es @ fs) s'"
proof (induction arbitrary: es rule: srv_run.induct)
  case (run_step e s s' fs s'')
  {
    case 1
    with run_step.IH(1) [OF srv_inv_step [OF 1 run_step.hyps(1)]] show ?case by simp
  next
    case 2
    with run_step.IH(2) [OF ids_inv_step [OF 2 run_step.hyps(1)]] show ?case by simp
  }
qed simp_all

lemmas run_inv = srv_inv_run(1) [OF _ srv_inv_init(1), simplified] srv_inv_run(2) [OF _ srv_inv_init(2), simplified]

lemma srv_run_append:
  "srv_run with_tls s (es @ fs) s' \<longleftrightarrow> (\<exists>u. srv_run with_tls s es u \<and> srv_run with_tls u fs s')"
  by (induction es arbitrary: s) (auto simp: srv_run_simps)

text \<open>Once the loop has ended nothing is accepted any more, and an error is final.\<close>

lemma ended_step:
  assumes "control s \<noteq> Looping" and "srv_step with_tls e s = Some s'"
  shows "control s' \<noteq> Looping" and "\<not> accepts with_tls e" and "length (tasks s') = length (tasks s)"
    and "control s = Returned r \<Longrightarrow> control s' = Returned r"
    and "control s' \<in> {control s, Returned (Ok ())}"
  using assms by (cases e; auto simp: srv_defs split: if_splits)+

lemma ended_run:
  "srv_run with_tls s es s' \<Longrightarrow> control s \<noteq> Looping \<Longrightarrow>
   control s' \<noteq> Looping \<and> list_all (\<lambda>e. \<not> accepts with_tls e) es \<and> length (tasks s') = length (tasks s) \<and>
   (control s = Returned r \<longrightarrow> control s' = Returned r) \<and> control s' \<in> {control s, Returned (Ok ())}"
proof (induction rule: srv_run.induct)
  case (run_step e s s' es s'')
  note step = ended_step [OF run_step.prems run_step.hyps(1)]
  from run_step.IH [OF step(1)] step(2-5) show ?case by auto
qed simp

lemma weight_update:
  assumes "i < length ts" and "w (conn_phase t) < w (conn_phase (ts ! i))"
  shows "sum_list (map (\<lambda>t. w (conn_phase t)) (ts[i := t])) < (sum_list (map (\<lambda>t. w (conn_phase t)) ts) :: nat)"
  using assms
proof (induction ts arbitrary: i)
  case (Cons x xs)
  then show ?case by (cases i) auto
qed simp

lemma remaining_step:
  assumes "control s \<noteq> Looping" and "srv_step with_tls e s = Some s'"
  shows "remaining s' < remaining s"
proof (cases e)
  case (TaskStarts i)
  with assms weight_update [of i "tasks s" phase_weight "\<lparr>service_id = Some (next_service s), conn_phase = Serving\<rparr>"]
  show ?thesis by (auto simp: remaining_def srv_defs split: if_splits)
next
  case (TaskSeesSignal i)
  with assms weight_update [of i "tasks s" phase_weight "(tasks s ! i)\<lparr>conn_phase := Draining\<rparr>"]
  show ?thesis by (auto simp: remaining_def srv_defs split: if_splits)
next
  case (ConnEnds i)
  with assms weight_update [of i "tasks s" phase_weight "(tasks s ! i)\<lparr>conn_phase := Closed\<rparr>"]
  show ?thesis by (auto simp: remaining_def srv_defs split: if_splits)
qed (use assms in \<open>auto simp: remaining_def srv_defs split: if_splits\<close>)

lemma remaining_run:
  "srv_run with_tls s es s' \<Longrightarrow> control s \<noteq> Looping \<Longrightarrow> length es + remaining s' \<le> remaining s"
proof (induction rule: srv_run.induct)
  case (run_step e s s' es s'')
  from remaining_step [OF run_step.prems run_step.hyps(1)] ended_step(1) [OF run_step.prems run_step.hyps(1)]
    run_step.IH show ?case by simp
qed simp

lemma remaining_bound: "remaining s \<le> 3 * length (tasks s) + 1 + signal_rx s"
proof -
  have "phase_weight (conn_phase t) \<le> 3" for t :: conn_task by (cases "conn_phase t") simp_all
  then have "sum_list (map (\<lambda>t. phase_weight (conn_phase t)) ts) \<le> sum_list (map (\<lambda>t. 3) ts)"
    for ts :: "conn_task list" by (intro sum_list_mono)
  from this [of "tasks s"] show ?thesis by (simp add: remaining_def sum_list_triv)
qed

text \<open>A server that waits for its connections is stuck in no state.\<close>

lemma waiting_not_stuck:
  assumes "srv_inv with_tls es s" and "control s = AwaitingClose"
  shows "\<exists>e s'. srv_step with_tls e s = Some s'"
proof (cases "open_tasks s = 0")
  case True
  with assms have "srv_step with_tls AllClosed s \<noteq> None" by (simp add: srv_inv_def)
  then show ?thesis by blast
next
  case False
  then obtain i where i: "i < length (tasks s)" "conn_phase (tasks s ! i) \<noteq> Closed"
    by (auto simp: open_tasks_0 list_all_length)
  show ?thesis
  proof (cases "conn_phase (tasks s ! i) = Spawned")
    case True
    with i have "srv_step with_tls (TaskStarts i) s \<noteq> None" by simp
    then show ?thesis by blast
  next
    case False
    with i have "srv_step with_tls (ConnEnds i) s \<noteq> None" by (cases "conn_phase (tasks s ! i)") auto
    then show ?thesis by blast
  qed
qed

section \<open>Properties\<close>

text \<open>C23: what a run of the server can do. If \<open>run\<close> returns \<open>Ok\<close>, a shutdown signal came, and every
  connection that was accepted was served and came to its end; the loop ends for a signal only and
  accepts nothing after that; a connection is told to shut down only after the signal; and the
  connections get the service ids 1, 2, 3, and so on, in the order in which their tasks first
  run.\<close>

theorem graceful_shutdown:
  assumes "srv_run with_tls init_srv es s"
  shows "(control s = Returned (Ok ()) \<longrightarrow> Signal \<in> set es \<and>
            (\<forall>i < length (filter (accepts with_tls) es). TaskStarts i \<in> set es \<and> ConnEnds i \<in> set es)) \<and>
         (es = es1 @ LoopSeesSignal # es2 \<longrightarrow>
            Signal \<in> set es1 \<and> list_all (\<lambda>e. \<not> accepts with_tls e) es2) \<and>
         (es = es1 @ TaskSeesSignal i # es2 \<longrightarrow> Signal \<in> set es1) \<and>
         map (\<lambda>i. service_id (tasks s ! i)) (starts es) = map (\<lambda>k. Some (of_nat (Suc k))) [0..<length (starts es)]"
proof (intro conjI impI)
  note inv = run_inv [OF assms]
  show "map (\<lambda>i. service_id (tasks s ! i)) (starts es) = map (\<lambda>k. Some (of_nat (Suc k))) [0..<length (starts es)]"
    using inv(2) by (simp add: ids_inv_def)
  {
    assume "control s = Returned (Ok ())"
    then have "Signal \<in> set es \<and> (\<forall>i < length (tasks s). conn_phase (tasks s ! i) = Closed)"
      using inv(1) by (auto simp: srv_inv_def open_tasks_0 list_all_length)
    then show "Signal \<in> set es"
      and "\<forall>i < length (filter (accepts with_tls) es). TaskStarts i \<in> set es \<and> ConnEnds i \<in> set es"
      using inv(1) by (auto simp: srv_inv_def starts_iff)
  }
  {
    assume "es = es1 @ LoopSeesSignal # es2"
    with assms obtain u v where u: "srv_run with_tls init_srv es1 u" "srv_step with_tls LoopSeesSignal u = Some v"
      and v: "srv_run with_tls v es2 s"
      by (auto simp: srv_run_append srv_run_simps)
    then have "control v = AwaitingClose" by (auto split: if_splits)
    with ended_run [OF v] run_inv(1) [OF u(1)] u(2)
    show "Signal \<in> set es1" and "list_all (\<lambda>e. \<not> accepts with_tls e) es2"
      by (auto simp: srv_inv_def split: if_splits)
  }
  assume "es = es1 @ TaskSeesSignal i # es2"
  with assms obtain u v where u: "srv_run with_tls init_srv es1 u" "srv_step with_tls (TaskSeesSignal i) u = Some v"
    by (auto simp: srv_run_append srv_run_simps)
  with run_inv(1) [OF u(1)] show "Signal \<in> set es1" by (auto simp: srv_inv_def split: if_splits)
qed

definition demo_events :: "event list" where
  "demo_events = [AcceptOk (Ok ()), AcceptOk (Ok ()), TaskStarts 1, Signal, TaskSeesSignal 1, LoopSeesSignal,
     TaskStarts 0, ConnEnds 1, ConnEnds 0, AllClosed]"

lemma demo_run: "\<exists>s. srv_run False init_srv demo_events s \<and> control s = Returned (Ok ()) \<and>
   map service_id (tasks s) = [Some 2, Some 1]"
  by (simp add: demo_events_def init_srv_def srv_run_simps srv_defs)

theorem graceful_shutdown_witness:
  "\<exists>s. srv_run False init_srv demo_events s \<and> control s = Returned (Ok ()) \<and>
     (\<forall>i < 2. TaskStarts i \<in> set demo_events \<and> ConnEnds i \<in> set demo_events) \<and>
     map (\<lambda>i. service_id (tasks s ! i)) [1, 0] = [Some 1, Some 2]"
proof -
  obtain s where s: "srv_run False init_srv demo_events s" "control s = Returned (Ok ())" using demo_run by blast
  have "length (filter (accepts False) demo_events) = 2" "starts demo_events = [1, 0]"
    by (simp_all add: demo_events_def)
  with graceful_shutdown [OF s(1)] s show ?thesis by (auto simp: upt_rec)
qed

text \<open>C24: shutting down terminates. Once the loop has ended for a signal, with \<open>n\<close> connections at most
  \<open>3 n + 1\<close> further events are possible, in whatever order, and when no further event is possible
  \<open>run\<close> has returned \<open>Ok\<close>: the server neither hangs nor fails while its connections come to their
  end.\<close>

theorem shutdown_completes:
  assumes "srv_run with_tls init_srv es s" and "control s = AwaitingClose" and "srv_run with_tls s fs s'"
  shows "length fs \<le> 3 * length (tasks s) + 1 \<and>
     ((\<forall>e. srv_step with_tls e s' = None) \<longrightarrow> control s' = Returned (Ok ()))"
proof
  have inv: "srv_inv with_tls es s" by (rule run_inv(1) [OF assms(1)])
  have "control s \<noteq> Looping" using assms(2) by simp
  with remaining_run [OF assms(3)] remaining_bound [of s] inv assms(2)
  show "length fs \<le> 3 * length (tasks s) + 1" by (auto simp: srv_inv_def)
  have "control s' \<in> {AwaitingClose, Returned (Ok ())}"
    using ended_run [OF assms(3)] assms(2) by simp
  then show "(\<forall>e. srv_step with_tls e s' = None) \<longrightarrow> control s' = Returned (Ok ())"
    using waiting_not_stuck [OF srv_inv_run(1) [OF assms(3) inv]] by auto
qed

theorem shutdown_completes_witness:
  "\<exists>s s'. srv_run False init_srv (take 6 demo_events) s \<and> srv_run False s (drop 6 demo_events) s' \<and>
     control s' = Returned (Ok ()) \<and> length (drop 6 demo_events) \<le> 7"
proof -
  obtain s where s: "srv_run False init_srv (take 6 demo_events) s" "control s = AwaitingClose" "length (tasks s) = 2"
    and s': "\<exists>s'. srv_run False s (drop 6 demo_events) s' \<and> (\<forall>e. srv_step False e s' = None)"
  proof -
    let ?s = "\<lparr>signal_rx = 0, close_rx = 2, control = AwaitingClose,
      tasks = [\<lparr>service_id = None, conn_phase = Spawned\<rparr>, \<lparr>service_id = Some 1, conn_phase = Draining\<rparr>],
      next_service = 2\<rparr>"
    let ?s' = "\<lparr>signal_rx = 0, close_rx = 0, control = Returned (Ok ()),
      tasks = [\<lparr>service_id = Some 2, conn_phase = Closed\<rparr>, \<lparr>service_id = Some 1, conn_phase = Closed\<rparr>],
      next_service = 3\<rparr>"
    have "srv_step False e ?s' = None" for e
      by (cases e) (auto simp: nth_Cons split: nat.splits)
    moreover have "srv_run False init_srv (take 6 demo_events) ?s" "srv_run False ?s (drop 6 demo_events) ?s'"
      by (simp_all add: demo_events_def init_srv_def srv_run_simps srv_defs)
    ultimately show thesis by (intro that [of ?s]) auto
  qed
  then obtain s' where r: "srv_run False s (drop 6 demo_events) s'" "\<forall>e. srv_step False e s' = None" by blast
  from shutdown_completes [OF s(1,2) r(1)] r s show ?thesis by auto
qed

text \<open>C39: with TLS, one client whose handshake fails stops the server: at any time, without a shutdown
  signal and whatever connections are being served, \<open>run\<close> returns with the error of the
  handshake, and from then on no connection is accepted any more.\<close>

theorem tls_handshake_error_stops_server:
  assumes "srv_run True init_srv es s" and "control s = Looping"
  shows "\<exists>s'. srv_run True init_srv (es @ [AcceptOk (Err e)]) s' \<and> control s' = Returned (Err (Failed e)) \<and>
     tasks s' = tasks s \<and>
     (\<forall>fs s''. srv_run True s' fs s'' \<longrightarrow>
        control s'' = Returned (Err (Failed e)) \<and> list_all (\<lambda>e. \<not> accepts True e) fs)"
proof -
  let ?s = "leave_run (Failed e) s"
  have "srv_run True s [AcceptOk (Err e)] ?s" using assms(2) by (simp add: srv_run_simps)
  with assms(1) have "srv_run True init_srv (es @ [AcceptOk (Err e)]) ?s" by (auto simp: srv_run_append)
  moreover have "control ?s = Returned (Err (Failed e))" "tasks ?s = tasks s" by (simp_all add: srv_defs)
  ultimately show ?thesis using ended_run by (intro exI [of _ ?s]) fastforce
qed

theorem tls_handshake_error_stops_server_witness:
  "\<exists>s. srv_run True init_srv [AcceptOk (Ok ()), TaskStarts 0, AcceptOk (Err ''bad handshake'')] s \<and>
     control s = Returned (Err (Failed ''bad handshake'')) \<and> map conn_phase (tasks s) = [Serving]"
proof -
  obtain s where s: "srv_run True init_srv [AcceptOk (Ok ()), TaskStarts 0] s" "control s = Looping"
    "map conn_phase (tasks s) = [Serving]"
    by (simp add: init_srv_def srv_run_simps srv_defs)
  from tls_handshake_error_stops_server [OF s(1,2), of "''bad handshake''"] s(3) show ?thesis by auto
qed

end
