(* ===== verification/Lifecycle.thy ===== *)
theory Lifecycle
  imports Server
begin

text \<open>
  The life of an application across all writers of the \<open>application\<close> table. The server's tasks run
  concurrently and only their single statements are atomic, so the table evolves by the statements
  below in any order; a failing statement changes nothing. Part one is the step relation with its
  invariant; part two is an abstract specification, the list of applications with the life of each, and
  what each statement does to it; part three shows that every writer of the program only takes
  steps of part one and does to the applications exactly what part two says.
\<close>

section \<open>Definitions\<close>

text \<open>The writing statements of the program, with what identifies them in the source: the insert of
  \<open>create_app\<close> and its update after a failed launch, the launch watcher, \<open>delete_app\<close>, the two
  callbacks, \<open>mark_application_failed\<close>, \<open>prune\<close> and \<open>check\<close>.\<close>

datatype stmt =
    InsertApp string "string option" string
  | LaunchFailed int
  | WatcherFailed int
  | DeleteByOwner int string
  | Register string ApplicationCallbackRequest
  | Unregister string
  | ConnectFailed string
  | PruneUntil DateTimeUtc
  | CheckFailed int

fun stmt_update :: "stmt \<Rightarrow> (assignment list \<times> cond list) option" where
  "stmt_update (LaunchFailed i) = Some ([(ColState, VState FAILED)], [CEq ColId (VInt i)])"
| "stmt_update (WatcherFailed i) =
     Some ([(ColState, VState FAILED)], [CEq ColId (VInt i), CEq ColState (VState LAUNCHING)])"
| "stmt_update (DeleteByOwner i u) =
     Some (finished_assigns, [CEq ColId (VInt i), CEq ColUsername (VStr u)])"
| "stmt_update (Register t params) = Some (running_assigns params, by_token t)"
| "stmt_update (Unregister t) = Some (finished_assigns, by_token t)"
| "stmt_update (ConnectFailed t) = Some (failed_assigns, by_token t)"
| "stmt_update (CheckFailed i) = Some (check_failed_assigns, [CEq ColId (VInt i)])"
| "stmt_update _ = None"

inductive step :: "Model list \<Rightarrow> stmt \<Rightarrow> Model list \<Rightarrow> bool" where
  created: "i \<notin> app_id ` set ms \<Longrightarrow> token \<notin> app_token ` set ms \<Longrightarrow>
    step ms (InsertApp u nm token)
      (ms @ [\<lparr>app_id = i, created_at = t, username = u, app_name = nm, app_state = LAUNCHING,
             app_token = token, app_address = None, application_id = None\<rparr>])"
| updated: "stmt_update c = Some (as, cs) \<Longrightarrow> step ms c (update_rows as cs ms)"
| pruned: "step ms (PruneUntil t) (delete_rows (prune_filter t) ms)"
| failed: "step ms c ms"

inductive reachable :: "Model list \<Rightarrow> Model list \<Rightarrow> bool" where
  reach_refl: "reachable ms ms"
| reach_step: "reachable ms ms' \<Longrightarrow> step ms' c ms'' \<Longrightarrow> reachable ms ms''"

definition row_ok :: "Model \<Rightarrow> bool" where
  "row_ok m =
     (case app_state m of
        LAUNCHING \<Rightarrow> app_address m = None \<and> application_id m = None
      | RUNNING \<Rightarrow> app_address m \<noteq> None \<and> application_id m \<noteq> None
      | FAILED \<Rightarrow> True
      | FINISHED \<Rightarrow> app_address m = None)"

definition rows_inv :: "Model list \<Rightarrow> bool" where
  "rows_inv ms \<longleftrightarrow> distinct (map app_id ms) \<and> distinct (map app_token ms) \<and> list_all row_ok ms"

subsection \<open>The abstract specification\<close>

text \<open>An application as its owner and its clients see it: who it belongs to, its secret, and where it is in
  its life.\<close>

datatype life = Starting | Up "string option" | Broken | Ended

record app =
  ap_key :: int
  ap_since :: DateTimeUtc
  ap_owner :: string
  ap_label :: "string option"
  ap_secret :: string
  ap_life :: life

definition turn :: "(app \<Rightarrow> bool) \<Rightarrow> life \<Rightarrow> app list \<Rightarrow> app list" where
  "turn P l as = map (\<lambda>a. if P a then a\<lparr>ap_life := l\<rparr> else a) as"

text \<open>What each statement is meant to do. Only a starting application is given up by the watcher of its
  launch; only an owner deletes; only broken and ended applications are pruned.\<close>

fun app_effect :: "stmt \<Rightarrow> app list \<Rightarrow> app list" where
  "app_effect (LaunchFailed i) as = turn (\<lambda>a. ap_key a = i) Broken as"
| "app_effect (WatcherFailed i) as = turn (\<lambda>a. ap_key a = i \<and> ap_life a = Starting) Broken as"
| "app_effect (DeleteByOwner i u) as = turn (\<lambda>a. ap_key a = i \<and> ap_owner a = u) Ended as"
| "app_effect (Register t params) as = turn (\<lambda>a. ap_secret a = t) (Up (Some (acr_address params))) as"
| "app_effect (Unregister t) as = turn (\<lambda>a. ap_secret a = t) Ended as"
| "app_effect (ConnectFailed t) as = turn (\<lambda>a. ap_secret a = t) Broken as"
| "app_effect (CheckFailed i) as = turn (\<lambda>a. ap_key a = i) Broken as"
| "app_effect (PruneUntil t) as = filter (\<lambda>a. \<not> (ap_life a \<in> {Broken, Ended} \<and> ap_since a \<le> t)) as"
| "app_effect (InsertApp u nm t) as = as"

text \<open>What statements of a set can do together; an insert adds a starting application with a new key.\<close>

inductive app_reach :: "stmt set \<Rightarrow> app list \<Rightarrow> app list \<Rightarrow> bool" for S where
  app_refl: "app_reach S as as"
| app_stmt: "app_reach S as bs \<Longrightarrow> c \<in> S \<Longrightarrow> app_reach S as (app_effect c bs)"
| app_new: "app_reach S as bs \<Longrightarrow> InsertApp u nm t \<in> S \<Longrightarrow> k \<notin> ap_key ` set bs \<Longrightarrow>
    app_reach S as (bs @ [\<lparr>ap_key = k, ap_since = now, ap_owner = u, ap_label = nm, ap_secret = t, ap_life = Starting\<rparr>])"

text \<open>The application a row stands for.\<close>

definition view_of :: "Model \<Rightarrow> app" where
  "view_of m = \<lparr>ap_key = app_id m, ap_since = created_at m, ap_owner = username m, ap_label = app_name m,
     ap_secret = app_token m,
     ap_life = (case app_state m of LAUNCHING \<Rightarrow> Starting | RUNNING \<Rightarrow> Up (app_address m)
                | FAILED \<Rightarrow> Broken | FINISHED \<Rightarrow> Ended)\<rparr>"

definition apps_of :: "Model list \<Rightarrow> app list" where
  "apps_of ms = map view_of ms"

section \<open>Lemmas\<close>

lemma keeps_identity_stmt: "stmt_update c = Some (as, cs) \<Longrightarrow> keeps_identity as"
  by (cases c) (auto simp: keeps_identity_def finished_assigns_def running_assigns_def
      failed_assigns_def check_failed_assigns_def)

lemma row_ok_stmt:
  "stmt_update c = Some (as, cs) \<Longrightarrow> row_ok (set_cols as m)"
  by (cases c) (auto simp: row_ok_def finished_assigns_def running_assigns_def
      failed_assigns_def check_failed_assigns_def)

lemma view_of_simps [simp]:
  "ap_key (view_of m) = app_id m" "ap_owner (view_of m) = username m" "ap_secret (view_of m) = app_token m"
  "ap_since (view_of m) = created_at m" "ap_life (view_of m) = Starting \<longleftrightarrow> app_state m = LAUNCHING"
  "ap_life (view_of m) = Broken \<longleftrightarrow> app_state m = FAILED" "ap_life (view_of m) = Ended \<longleftrightarrow> app_state m = FINISHED"
  by (cases "app_state m"; simp add: view_of_def)+

lemma apps_of_update:
  "stmt_update c = Some (as, cs) \<Longrightarrow> apps_of (update_rows as cs ms) = app_effect c (apps_of ms)"
proof (induction ms)
  case (Cons m ms)
  then show ?case
    by (cases c) (auto simp: apps_of_def turn_def view_of_def finished_assigns_def running_assigns_def
        failed_assigns_def check_failed_assigns_def by_token_def split: State.splits)
qed (cases c; simp add: apps_of_def turn_def)

lemma apps_of_prune: "apps_of (delete_rows (prune_filter t) ms) = app_effect (PruneUntil t) (apps_of ms)"
  unfolding apps_of_def delete_rows_def by (induction ms) (auto simp: holds_prune_filter)

lemma app_reach_trans: "app_reach S bs cs \<Longrightarrow> app_reach S as bs \<Longrightarrow> app_reach S as cs"
  by (induction rule: app_reach.induct) (auto intro: app_reach.intros)

lemma app_reach_mono: "app_reach S as bs \<Longrightarrow> S \<subseteq> T \<Longrightarrow> app_reach T as bs"
  by (induction rule: app_reach.induct) (auto intro: app_reach.intros)

text \<open>In the specification an application that has left its start never returns to it.\<close>

lemma app_effect_never_restarts:
  assumes "a \<in> set (app_effect c as)" and "ap_life a = Starting"
  shows "a \<in> set as"
  using assms by (cases c) (auto simp: turn_def split: if_splits)

lemma list_all_update_rows:
  "list_all P ms \<Longrightarrow> (\<And>m. P (set_cols as m)) \<Longrightarrow> list_all P (update_rows as cs ms)"
  by (auto simp: list_all_iff set_update_rows)

lemma rows_inv_step:
  assumes "step ms c ms'" and "rows_inv ms"
  shows "rows_inv ms'"
  using assms
proof (cases rule: step.cases)
  case (updated as cs)
  with assms(2) update_rows_keeps [OF keeps_identity_stmt [OF updated(2)]] row_ok_stmt [OF updated(2)]
  show ?thesis by (auto simp: rows_inv_def intro: list_all_update_rows)
next
  case (pruned t)
  with assms(2) show ?thesis
    by (auto simp: rows_inv_def delete_rows_def list_all_iff intro: distinct_map_filter)
qed (auto simp: rows_inv_def row_ok_def)

lemma rows_inv_reachable: "reachable ms ms' \<Longrightarrow> rows_inv ms \<Longrightarrow> rows_inv ms'"
  by (induction rule: reachable.induct) (auto intro: rows_inv_step)

lemma reachable_one: "step ms c ms' \<Longrightarrow> reachable ms ms'"
  by (rule reach_step [OF reach_refl])

lemma reachable_trans: "reachable b c \<Longrightarrow> reachable a b \<Longrightarrow> reachable a c"
  by (induction rule: reachable.induct) (auto intro: reach_step)

lemma reachable_update: "stmt_update c = Some (as, cs) \<Longrightarrow> reachable ms (update_rows as cs ms)"
  by (rule reachable_one) (rule updated)

lemma reachable_eq: "ms' = ms \<Longrightarrow> reachable ms ms'"
  by (simp add: reach_refl)

lemma token_unique: "rows_inv ms \<Longrightarrow> length (matching (by_token t) ms) \<le> 1"
proof -
  assume "rows_inv ms"
  then have "distinct (map app_token ms)" by (simp add: rows_inv_def)
  then have "distinct (map app_token (matching (by_token t) ms))"
    unfolding matching_def by (rule distinct_map_filter)
  moreover have "set (map app_token (matching (by_token t) ms)) \<subseteq> {t}"
    by (auto simp: by_token_def)
  ultimately have "length (map app_token (matching (by_token t) ms)) \<le> card {t}"
    by (metis card_mono distinct_card finite.emptyI finite.insertI)
  then show ?thesis by simp
qed

subsection \<open>The writers\<close>

context app_store
begin

lemma update_many_reachable:
  assumes "db_update_many db as cs d = (r, d')" and "stmt_update c = Some (as, cs)"
  shows "reachable (rows d) (rows d')"
  using assms(1)
  by (cases rule: update_many_cases) (auto intro: reachable_update [OF assms(2)] reachable_eq)

lemma update_reachable:
  assumes "db_update db i as d = (r, d')" and "stmt_update c = Some (as, [CEq ColId (VInt i)])"
  shows "reachable (rows d) (rows d')"
  using assms update_OkD [of i as d _ d'] update_ErrD [of i as d _ d'] reachable_update [OF assms(2)]
  by (cases r) (auto intro: reachable_eq)

lemma one_reachable: "db_one db cs d = (r, d') \<Longrightarrow> reachable (rows d) (rows d')"
  using one_rows by (auto intro: reachable_eq)

lemma create_app_reachable:
  assumes st: "state_db st = db" and fresh: "fst (new_v4 st n) \<notin> app_token ` set (rows d)"
    and run: "create_app st u params (d, c, n) = (r, d', c', n')"
  shows "reachable (rows d) (rows d')"
proof -
  obtain token n0 where uuid: "new_v4 st n = (token, n0)" by (rule prod.exhaust)
  from st run uuid show ?thesis
  proof (cases rule: create_app_cases)
    case refused
    then show ?thesis by (intro reachable_eq)
  next
    case (inserted i t m l)
    have ins: "reachable (rows d) (rows d @ [m])"
      unfolding inserted(2) by (rule reachable_one [OF created]) (use inserted(1) fresh uuid in simp_all)
    have "update_rows [(ColState, VState FAILED)] [CEq ColId (VInt i)] (rows d @ [m]) =
        rows d @ [m\<lparr>app_state := FAILED\<rparr>]"
      using inserted(1,2) by (simp add: update_rows_fresh)
    then have "reachable (rows d @ [m]) (rows d @ [m\<lparr>app_state := FAILED\<rparr>])"
      using reachable_update [of "LaunchFailed i" _ _ "rows d @ [m]"] by simp
    then have "reachable (rows d) (rows d @ [m\<lparr>app_state := FAILED\<rparr>])"
      using ins by (rule reachable_trans)
    with inserted(5) ins show ?thesis by (cases l; cases "err_val l") auto
  qed
qed

lemma delete_app_reachable:
  assumes "state_db st = db" and "delete_app st i u (d, c, n) = (r, d', c', n')"
  shows "reachable (rows d) (rows d')"
  using assms
proof (cases rule: delete_app_cases)
  case (finished m)
  have "rows d' = update_rows finished_assigns [CEq ColId (VInt i), CEq ColUsername (VStr u)] (rows d)"
    unfolding finished(3) by (auto simp: update_rows_def owns_def finished_assigns_def)
  then show ?thesis using reachable_update [of "DeleteByOwner i u"] by simp
qed (intro reachable_eq, assumption)+

lemma callback_reachable:
  assumes "state_db st = db" and "app_callback st t params (d, c, n) = (r, d', c', n')"
  shows "reachable (rows d) (rows d')"
proof -
  obtain q d1 where "db_update_many db (running_assigns params) (by_token t) d = (q, d1)" by (rule prod.exhaust)
  with assms update_many_reachable [OF this, of "Register t params"] show ?thesis
    by (auto simp: app_callback_def split: Result.splits if_splits)
qed

lemma callback_delete_reachable:
  assumes "state_db st = db" and "app_callback_delete st t (d, c, n) = (r, d', c', n')"
  shows "reachable (rows d) (rows d')"
proof -
  obtain q d1 where "db_update_many db finished_assigns (by_token t) d = (q, d1)" by (rule prod.exhaust)
  with assms update_many_reachable [OF this, of "Unregister t"] show ?thesis
    by (auto simp: app_callback_delete_def split: Result.splits if_splits)
qed

lemma user_api_reachable:
  assumes st: "state_db st = db" and fresh: "fst (new_v4 st n) \<notin> app_token ` set (rows d)"
    and run: "user_api st u call (d, c, n) = (r, d', c', n')"
  shows "reachable (rows d) (rows d')"
proof (cases call)
  case (ListApps params)
  with run list_apps_cases [OF st] show ?thesis
    by (cases "list_apps st u params (d, c, n)") (auto simp: map_answer_iff intro: reachable_eq)
next
  case (CreateApp params)
  with run create_app_reachable [OF st fresh] show ?thesis
    by (cases "create_app st u params (d, c, n)") (auto simp: map_answer_iff)
next
  case (GetApp i)
  with run get_app_cases [OF st] show ?thesis
    by (cases "get_app st i u (d, c, n)") (auto simp: map_answer_iff intro: reachable_eq)
next
  case (DeleteApp i)
  with run delete_app_reachable [OF st] show ?thesis
    by (cases "delete_app st i u (d, c, n)") (auto simp: map_answer_iff)
qed (use run in \<open>auto intro: reachable_eq\<close>)

lemma callback_api_reachable:
  assumes st: "state_db st = db" and run: "callback_api st t call (d, c, n) = (r, d', c', n')"
  shows "reachable (rows d) (rows d')"
proof (cases call)
  case (AppCallback params)
  with run callback_reachable [OF st] show ?thesis
    by (cases "app_callback st t params (d, c, n)") (auto simp: map_answer_iff)
next
  case AppCallbackDelete
  with run callback_delete_reachable [OF st] show ?thesis
    by (cases "app_callback_delete st t (d, c, n)") (auto simp: map_answer_iff)
qed (use run in \<open>auto intro: reachable_eq\<close>)

lemma router_reachable:
  assumes st: "state_db st = db" and fresh: "fst (new_v4 st n) \<notin> app_token ` set (rows d)"
    and run: "get_router ops user_auth st headers call (d, c, n) = (r, d', c', n')"
  shows "reachable (rows d) (rows d')"
  using run user_api_reachable [OF st fresh] callback_api_reachable [OF st]
  by (auto simp: get_router_def intro: reachable_eq split: if_splits Result.splits)

lemma mark_failed_reachable:
  assumes "mark_application_failed db token s = (r, s')"
  shows "reachable (rows (fst s)) (rows (fst s'))"
  using assms
  by (cases rule: mark_failed_cases)
    (auto intro: reachable_eq reachable_update [of "ConnectFailed token", simplified])

lemma watcher_reachable:
  "launch_watcher db i d = (r, d') \<Longrightarrow> reachable (rows d) (rows d')"
  unfolding launch_watcher_def by (rule update_many_reachable [of _ _ _ _ _ "WatcherFailed i"]) simp_all

lemma prune_reachable:
  assumes "\<And>ms d r d'. up ms d = (r, d') \<Longrightarrow> rows d' = rows d"
    and run: "prune db up now from_timestamp older d = (r, d')"
  shows "reachable (rows d) (rows d')"
proof -
  obtain e d1 where e: "ensure_db up d = (e, d1)" by (rule prod.exhaust)
  have r1: "rows d1 = rows d"
    using e assms(1) by (auto simp: ensure_db_def split: prod.splits Result.splits)
  have del: "reachable (rows d) (rows d2)" if "db_delete_many db (prune_filter t) d1 = (q, d2)" for t q d2
    using that delete_many_OkD(1) delete_many_ErrD r1 reachable_one [OF pruned, of "rows d" t]
    by (cases q) (auto intro: reachable_eq)
  have "d' = d1 \<or> (\<exists>t q. db_delete_many db (prune_filter t) d1 = (q, d'))"
    using run e by (auto simp: prune_def split: Result.splits option.splits prod.splits)
  with del r1 show ?thesis by (auto intro: reachable_eq)
qed

text \<open>Checking moves the table only by the updates of the applications it looks at, apart from what
  others do while it waits; \<open>R\<close> is any relation that contains both.\<close>

lemma check_apps_rel:
  assumes refl: "\<And>ms. R ms ms" and trans: "\<And>a b c. R a b \<Longrightarrow> R b c \<Longrightarrow> R a c"
    and sleep: "\<And>k s. R (rows (fst s)) (rows (fst (sleep k s)))"
    and upd: "\<And>m ms. m \<in> set apps \<Longrightarrow> R ms (update_rows check_failed_assigns [CEq ColId (VInt (app_id m))] ms)"
    and "check_apps db http sleep apps s = (r, s')"
  shows "R (rows (fst s)) (rows (fst s'))"
  using assms(4,5)
proof (induction apps arbitrary: s)
  case (Cons app apps)
  let ?v = "case app_address app of
      Some a \<Rightarrow> (case check_application_health http sleep a (app_token app) s of (r, s) \<Rightarrow> (\<not> is_ok r, s))
    | None \<Rightarrow> (True, s)"
  obtain b s1 where v: "?v = (b, s1)" by (rule prod.exhaust)
  have health: "R (rows (fst s)) (rows (fst s2))"
    if "check_application_health http sleep a t s = (q, s2)" for a t q s2
  proof (rule retry_invariant [where P = "\<lambda>u. R (rows (fst s)) (rows (fst u))"])
    show "retry (health_probe http a t) (sleep HEALTH_CHECK_RETRY_DELAY) HEALTH_CHECK_RETRIES s = (q, s2)"
      using that by (simp add: health.retry_loop_eq)
  qed (auto simp: health_probe_def refl intro: trans [OF _ sleep] split: prod.splits)
  have s1: "R (rows (fst s)) (rows (fst s1))"
    using v health by (auto simp: refl split: option.splits prod.splits)
  obtain q d where q: "db_update db (app_id app) check_failed_assigns (fst s1) = (q, d)" by (rule prod.exhaust)
  have "R (rows (fst s1)) (rows d)"
    using q update_OkD update_ErrD Cons.prems(1) [of app] refl by (cases q) auto
  then have d: "R (rows (fst s)) (rows d)" by (rule trans [OF s1])
  have "check_apps db http sleep (app # apps) s =
      (if b then (case q of Err e \<Rightarrow> (Err (Failed e), d, snd s1)
             | Ok _ \<Rightarrow> check_apps db http sleep apps (d, snd s1))
       else check_apps db http sleep apps s1)"
    using v q by simp
  with Cons.prems d s1 Cons.IH [of "(d, snd s1)"] Cons.IH [of s1] show ?case
    by (auto intro: trans split: if_splits Result.splits)
qed (auto simp: refl)

lemma check_rel:
  assumes "\<And>ms d r d'. up ms d = (r, d') \<Longrightarrow> rows d' = rows d"
    and refl: "\<And>ms. R ms ms" and trans: "\<And>a b c. R a b \<Longrightarrow> R b c \<Longrightarrow> R a c"
    and sleep: "\<And>k s. R (rows (fst s)) (rows (fst (sleep k s)))"
    and upd: "\<And>m ms. m \<in> set (rows (fst s)) \<Longrightarrow> app_state m = RUNNING \<Longrightarrow>
      R ms (update_rows check_failed_assigns [CEq ColId (VInt (app_id m))] ms)"
    and run: "check db up http sleep s = (r, s')"
  shows "R (rows (fst s)) (rows (fst s'))"
proof -
  obtain e d1 where e: "ensure_db up (fst s) = (e, d1)" by (rule prod.exhaust)
  have r1: "rows d1 = rows (fst s)"
    using e assms(1) by (auto simp: ensure_db_def split: prod.splits Result.splits)
  obtain q d2 where q: "db_all db [CEq ColState (VState RUNNING)] d1 = (q, d2)" by (rule prod.exhaust)
  have r2: "rows d2 = rows (fst s)" using all_rows [OF q] r1 by simp
  have "fst s' = d1 \<or> fst s' = d2 \<or> (\<exists>apps. q = Ok apps \<and> check_apps db http sleep apps (d2, snd s) = (r, s'))"
    using run e q by (cases e; cases q) (auto simp: check_def)
  moreover have "R (rows d2) (rows (fst s'))"
    if "q = Ok apps" and c: "check_apps db http sleep apps (d2, snd s) = (r, s')" for apps
  proof -
    have "m \<in> set (rows (fst s)) \<and> app_state m = RUNNING" if "m \<in> set apps" for m
      using all_OkD(3) [of _ d1 apps d2] q \<open>q = Ok apps\<close> that r1 by (auto simp: matching_def)
    with check_apps_rel [of R sleep apps http "(d2, snd s)" r s', OF refl trans sleep _ c] upd show ?thesis by simp
  qed
  ultimately show ?thesis using r1 r2 refl by auto
qed

lemma check_reachable:
  assumes "\<And>ms d r d'. up ms d = (r, d') \<Longrightarrow> rows d' = rows d"
    and "\<And>k s. reachable (rows (fst s)) (rows (fst (sleep k s)))"
    and "check db up http sleep s = (r, s')"
  shows "reachable (rows (fst s)) (rows (fst s'))"
proof (rule check_rel [where R = reachable, OF _ reach_refl _ _ _ assms(3)])
  show "reachable ms (update_rows check_failed_assigns [CEq ColId (VInt (app_id m))] ms)" for m ms
    using reachable_update [of "CheckFailed (app_id m)"] by simp
qed (use assms(1,2) reachable_trans in blast)+

lemma check_app_reach:
  assumes "\<And>ms d r d'. up ms d = (r, d') \<Longrightarrow> rows d' = rows d"
    and "\<And>k s. app_reach S (apps_of (rows (fst s))) (apps_of (rows (fst (sleep k s))))"
    and "check db up http sleep s = (r, s')"
  shows "app_reach (S \<union> {CheckFailed (app_id m) | m. m \<in> set (rows (fst s)) \<and> app_state m = RUNNING})
    (apps_of (rows (fst s))) (apps_of (rows (fst s')))"
proof (rule check_rel [where R = "\<lambda>a b. app_reach _ (apps_of a) (apps_of b)", OF _ app_refl _ _ _ assms(3)])
  let ?T = "S \<union> {CheckFailed (app_id m) | m. m \<in> set (rows (fst s)) \<and> app_state m = RUNNING}"
  show "app_reach ?T (apps_of ms) (apps_of (update_rows check_failed_assigns [CEq ColId (VInt (app_id m))] ms))"
    if "m \<in> set (rows (fst s))" "app_state m = RUNNING" for m ms
    using app_stmt [OF app_refl, of "CheckFailed (app_id m)" ?T "apps_of ms"] that
      apps_of_update [of "CheckFailed (app_id m)" _ _ ms] by auto
  show "app_reach ?T (apps_of (rows (fst u))) (apps_of (rows (fst (sleep k u))))" for k u
    by (rule app_reach_mono [OF assms(2)]) simp
qed (use assms(1) app_reach_trans in blast)+

lemma update_many_apps:
  assumes "db_update_many db as cs d = (r, d')" and "stmt_update c = Some (as, cs)"
  shows "apps_of (rows d') = (if is_ok r then app_effect c (apps_of (rows d)) else apps_of (rows d))"
  using assms(1) by (cases rule: update_many_cases) (simp_all add: apps_of_update [OF assms(2)])

lemma callback_apps:
  assumes st: "state_db st = db" and run: "app_callback st t params (d, c, n) = (r, d', c', n')"
  shows "apps_of (rows d') = (if r = Ok () then app_effect (Register t params) (apps_of (rows d)) else apps_of (rows d))"
proof -
  have "update_rows (running_assigns params) (by_token t) (rows d) = map (\<lambda>m. if app_token m = t
       then m\<lparr>app_address := Some (acr_address params), app_state := RUNNING,
              application_id := Some (acr_application_id params)\<rparr> else m) (rows d)"
    by (auto simp: update_rows_def running_assigns_def by_token_def)
  with app_callback_cases [OF st run] apps_of_update [of "Register t params" _ _ "rows d"] show ?thesis by auto
qed

lemma callback_delete_apps:
  assumes st: "state_db st = db" and run: "app_callback_delete st t (d, c, n) = (r, d', c', n')"
  shows "apps_of (rows d') = (if r = Ok () then app_effect (Unregister t) (apps_of (rows d)) else apps_of (rows d))"
proof -
  have "update_rows finished_assigns (by_token t) (rows d) = map (\<lambda>m. if app_token m = t
       then m\<lparr>app_address := None, app_state := FINISHED\<rparr> else m) (rows d)"
    by (auto simp: update_rows_def finished_assigns_def by_token_def)
  with app_callback_delete_cases [OF st run] apps_of_update [of "Unregister t" _ _ "rows d"] show ?thesis by auto
qed

lemma delete_apps:
  assumes st: "state_db st = db" and run: "delete_app st i u (d, c, n) = (r, d', c', n')"
  shows "list_ex (\<lambda>a. ap_key a = i \<and> ap_owner a = u) (apps_of (rows d)) \<and>
      apps_of (rows d') = app_effect (DeleteByOwner i u) (apps_of (rows d)) \<or>
    r \<noteq> Ok () \<and> apps_of (rows d') = apps_of (rows d)"
proof -
  have upd: "update_rows finished_assigns [CEq ColId (VInt i), CEq ColUsername (VStr u)] (rows d) =
      map (\<lambda>m. if owns u i m then m\<lparr>app_address := None, app_state := FINISHED\<rparr> else m) (rows d)"
    by (auto simp: update_rows_def finished_assigns_def owns_def)
  have eff: "apps_of (map (\<lambda>m. if owns u i m then m\<lparr>app_address := None, app_state := FINISHED\<rparr> else m) (rows d)) =
      app_effect (DeleteByOwner i u) (apps_of (rows d))"
    using apps_of_update [of "DeleteByOwner i u" _ _ "rows d"] by (simp only: upd [symmetric] stmt_update.simps)
  have own: "m \<in> set (rows d) \<Longrightarrow> owns u i m \<Longrightarrow> list_ex (\<lambda>a. ap_key a = i \<and> ap_owner a = u) (apps_of (rows d))" for m
    by (auto simp: apps_of_def list_ex_iff owns_def)
  show ?thesis by (rule delete_app_cases [OF st run]) (simp_all only: eff own, simp_all)
qed

lemma create_apps:
  assumes st: "state_db st = db" and run: "create_app st u req (d, c, n) = (r, d', c', n')"
  shows "case r of
       Ok info \<Rightarrow> info_id info \<notin> ap_key ` set (apps_of (rows d)) \<and>
         (\<exists>now. apps_of (rows d') = apps_of (rows d) @ [\<lparr>ap_key = info_id info, ap_since = now, ap_owner = u,
            ap_label = car_name req, ap_secret = info_token info, ap_life = Starting\<rparr>])
     | Err e \<Rightarrow> apps_of (rows d') = apps_of (rows d) \<or>
         (\<exists>a. apps_of (rows d') = apps_of (rows d) @ [a] \<and> ap_key a \<notin> ap_key ` set (apps_of (rows d)) \<and>
            ap_owner a = u \<and> ap_life a \<in> {Broken, Starting})"
proof (rule create_app_cases [OF st run prod.collapse [symmetric]], goal_cases)
  case 1
  then show ?case by (simp add: apps_of_def)
next
  case (2 k now m l)
  have keys: "ap_key ` set (apps_of (rows d)) = app_id ` set (rows d)" by (simp add: apps_of_def image_image)
  have m: "application_id m = None" "view_of m = \<lparr>ap_key = k, ap_since = now, ap_owner = u, ap_label = car_name req,
      ap_secret = fst (new_v4 st n), ap_life = Starting\<rparr>" "app_id m = k" "app_token m = fst (new_v4 st n)" "username m = u"
    using 2(2) by (simp_all add: view_of_def)
  from 2(1,5) application_info_launching [OF m(1), of st] show ?case unfolding keys
    by (cases l; cases "err_val l") (auto simp: apps_of_def m view_of_def [of "m\<lparr>app_state := FAILED\<rparr>"])
qed

lemma watcher_apps:
  "launch_watcher db i d = (r, d') \<Longrightarrow>
   apps_of (rows d') = (if is_ok r then app_effect (WatcherFailed i) (apps_of (rows d)) else apps_of (rows d))"
  unfolding launch_watcher_def by (rule update_many_apps) simp_all

lemma mark_failed_apps:
  assumes "mark_application_failed db token s = (r, s')"
  shows "apps_of (rows (fst s')) =
    (if is_ok r then app_effect (ConnectFailed token) (apps_of (rows (fst s))) else apps_of (rows (fst s)))"
  using assms by (cases rule: mark_failed_cases) (simp_all add: apps_of_update [of "ConnectFailed token", simplified])

lemma prune_apps:
  assumes "\<And>ms d r d'. up ms d = (r, d') \<Longrightarrow> rows d' = rows d"
    and "prune db up (Ok now) from_timestamp older d = (r, d')"
  shows "if is_ok r
    then \<exists>t. from_timestamp (prune_cutoff_secs now older) = Some t \<and>
       apps_of (rows d') = app_effect (PruneUntil t) (apps_of (rows d))
    else apps_of (rows d') = apps_of (rows d)"
proof -
  obtain e d1 where e: "ensure_db up d = (e, d1)" by (rule prod.exhaust)
  have r1: "rows d1 = rows d"
    using e assms(1) by (auto simp: ensure_db_def split: prod.splits Result.splits)
  show ?thesis
  proof (cases "is_ok e \<and> from_timestamp (prune_cutoff_secs now older) \<noteq> None")
    case False
    with assms(2) e r1 show ?thesis by (auto simp: prune_def is_ok_iff split: Result.splits)
  next
    case True
    then obtain t where t: "from_timestamp (prune_cutoff_secs now older) = Some t" by blast
    obtain q d2 where q: "db_delete_many db (prune_filter t) d1 = (q, d2)" by (rule prod.exhaust)
    have "d' = d2 \<and> is_ok r = is_ok q"
      using assms(2) e True t q by (cases e; cases q) (auto simp: prune_def)
    with q r1 t delete_many_OkD(1) delete_many_ErrD show ?thesis
      by (cases q) (auto simp: apps_of_prune [simplified])
  qed
qed

end

section \<open>Properties\<close>

text \<open>C3: whatever statements the server's tasks execute, in whatever order and with whatever
  failures, starting from an empty table: ids and tokens are unique (so a token names at most one
  application), a RUNNING application has an address and a Spark application id, and a LAUNCHING
  or FINISHED one has no address.\<close>

theorem lifecycle_invariant:
  assumes "reachable [] ms"
  shows "distinct (map app_id ms) \<and> length (matching (by_token t) ms) \<le> 1 \<and>
     list_all (\<lambda>m. (app_state m = RUNNING \<longrightarrow> app_address m \<noteq> None \<and> application_id m \<noteq> None) \<and>
                    (app_state m \<in> {LAUNCHING, FINISHED} \<longrightarrow> app_address m = None)) ms"
proof -
  have inv: "rows_inv ms" by (rule rows_inv_reachable [OF assms]) (simp add: rows_inv_def)
  then have "row_ok m" if "m \<in> set ms" for m using that by (simp add: rows_inv_def list_all_iff)
  then have "list_all (\<lambda>m. (app_state m = RUNNING \<longrightarrow> app_address m \<noteq> None \<and> application_id m \<noteq> None) \<and>
                    (app_state m \<in> {LAUNCHING, FINISHED} \<longrightarrow> app_address m = None)) ms"
    by (fastforce simp: list_all_iff row_ok_def)
  with inv token_unique [OF inv] show ?thesis by (simp add: rows_inv_def)
qed

definition demo_rows :: "Model list" where
  "demo_rows = [\<lparr>app_id = 1, created_at = 0, username = ''alice'', app_name = None, app_state = LAUNCHING,
      app_token = ''t1'', app_address = None, application_id = None\<rparr>]"

lemma demo_rows_reachable: "reachable [] (update_rows (running_assigns
    \<lparr>acr_address = ''h:1'', acr_application_id = ''a1''\<rparr>) (by_token ''t1'') demo_rows)"
proof (rule reach_step [OF reachable_one])
  have "step [] (InsertApp ''alice'' None ''t1'') ([] @ demo_rows)"
    unfolding demo_rows_def by (rule created) simp_all
  then show "step [] (InsertApp ''alice'' None ''t1'') demo_rows" by simp
  show "step demo_rows (Register ''t1'' \<lparr>acr_address = ''h:1'', acr_application_id = ''a1''\<rparr>)
      (update_rows (running_assigns \<lparr>acr_address = ''h:1'', acr_application_id = ''a1''\<rparr>) (by_token ''t1'') demo_rows)"
    by (rule updated) simp
qed

theorem lifecycle_invariant_witness:
  "length (matching (by_token ''t1'') (update_rows (running_assigns
     \<lparr>acr_address = ''h:1'', acr_application_id = ''a1''\<rparr>) (by_token ''t1'') demo_rows)) \<le> 1"
  using lifecycle_invariant [OF demo_rows_reachable, of "''t1''"] by simp



text \<open>C5: the HTTP API implements the step relation: whatever request it serves, the table moves by
  statements of the step relation only, provided \<open>Uuid::new_v4\<close> does not repeat a token in use; so
  it keeps the invariant.\<close>

theorem api_refines_lifecycle:
  assumes "app_store (state_db st) rows" and "fst (new_v4 st n) \<notin> app_token ` set (rows d)"
    and "get_router ops user_auth st headers call (d, c, n) = (r, d', c', n')"
  shows "reachable (rows d) (rows d') \<and> (rows_inv (rows d) \<longrightarrow> rows_inv (rows d'))"
  using app_store.router_reachable [OF assms(1) refl assms(2,3)] rows_inv_reachable by blast

theorem api_refines_lifecycle_witness:
  "\<exists>r w. get_router demo_auth_ops [RemoteUserAuth ''REMOTE_USER''] demo_st demo_headers
      (CreateApp \<lparr>car_name = None, car_version = None, car_config = None, car_python_packages = None\<rparr>)
      (demo_mem, [], 0) = (r, w) \<and> reachable (table demo_mem) (table (fst w))"
proof -
  obtain r d c n where run: "get_router demo_auth_ops [RemoteUserAuth ''REMOTE_USER''] demo_st demo_headers
      (CreateApp \<lparr>car_name = None, car_version = None, car_config = None, car_python_packages = None\<rparr>)
      (demo_mem, [], 0) = (r, d, c, n)" by (metis prod_cases4)
  have "fst (new_v4 demo_st 0) \<notin> app_token ` set (table demo_mem)"
    by (simp add: demo_st_def demo_mem_def demo_app_def)
  with api_refines_lifecycle [of demo_st table, unfolded demo_simps, OF mem.app_store_axioms _ run] run
  show ?thesis by auto
qed

text \<open>The background writers take steps of the step relation too: the launch watcher, the proxy's failure
  marking, pruning, and checking (also when the rest of the server goes on writing while the check
  waits).\<close>

lemma background_reachable:
  assumes "app_store db rows" and "\<And>ms d r d'. up ms d = (r, d') \<Longrightarrow> rows d' = rows d"
    and "\<And>k s. reachable (rows (fst s)) (rows (fst (sleep k s)))"
  shows "reachable (rows d) (rows (snd (launch_watcher db i d)))"
    and "reachable (rows d) (rows (fst (snd (mark_application_failed db token (d, n)))))"
    and "reachable (rows d) (rows (snd (prune db up now from_timestamp older d)))"
    and "reachable (rows d) (rows (fst (snd (check db up http sleep (d, n)))))"
proof -
  show "reachable (rows d) (rows (snd (launch_watcher db i d)))"
    by (rule app_store.watcher_reachable [OF assms(1) prod.collapse [symmetric]])
  show "reachable (rows d) (rows (fst (snd (mark_application_failed db token (d, n)))))"
    using app_store.mark_failed_reachable [OF assms(1) prod.collapse [symmetric]] by fastforce
  show "reachable (rows d) (rows (snd (prune db up now from_timestamp older d)))"
    by (rule app_store.prune_reachable [OF assms(1) _ prod.collapse [symmetric]]) (rule assms(2))
  obtain r s where c: "check db up http sleep (d, n) = (r, s)" by (rule prod.exhaust)
  from app_store.check_reachable [OF assms(1) _ assms(3) c] assms(2)
  show "reachable (rows d) (rows (fst (snd (check db up http sleep (d, n)))))" by (simp add: c)
qed

text \<open>C27: the background tasks implement the specification. The launch watcher breaks the application of
  its key if it is still starting, and no other, and the failure marking of the proxy breaks those
  with its secret; \<open>prune\<close> removes the broken and ended applications up to its cutoff; if their
  statement fails they change nothing. \<open>check\<close>, whose waiting lets other tasks take the steps of a set
  \<open>S\<close>, itself only breaks applications that were up when it started. The migrations leave the
  applications alone.\<close>

theorem background_refines_apps:
  assumes "app_store db rows" and "\<And>ms d r d'. up ms d = (r, d') \<Longrightarrow> rows d' = rows d"
    and "\<And>k s. app_reach S (apps_of (rows (fst s))) (apps_of (rows (fst (sleep k s))))"
  shows "(launch_watcher db i d = (r1, d1) \<longrightarrow>
      apps_of (rows d1) = (if is_ok r1
        then map (\<lambda>a. if ap_key a = i \<and> ap_life a = Starting then a\<lparr>ap_life := Broken\<rparr> else a) (apps_of (rows d))
        else apps_of (rows d))) \<and>
    (mark_application_failed db token (d, n) = (r2, d2, n2) \<longrightarrow>
      apps_of (rows d2) = (if is_ok r2
        then map (\<lambda>a. if ap_secret a = token then a\<lparr>ap_life := Broken\<rparr> else a) (apps_of (rows d))
        else apps_of (rows d))) \<and>
    (prune db up (Ok now) from_timestamp older d = (r3, d3) \<longrightarrow>
      (if is_ok r3
       then \<exists>t. from_timestamp (prune_cutoff_secs now older) = Some t \<and> apps_of (rows d3) =
          filter (\<lambda>a. \<not> (ap_life a \<in> {Broken, Ended} \<and> ap_since a \<le> t)) (apps_of (rows d))
       else apps_of (rows d3) = apps_of (rows d))) \<and>
    (check db up http sleep (d, n) = (r4, d4, n4) \<longrightarrow>
      app_reach (S \<union> {CheckFailed (app_id m) | m. m \<in> set (rows d) \<and> app_state m = RUNNING})
        (apps_of (rows d)) (apps_of (rows d4)))"
proof (intro conjI impI)
  show "apps_of (rows d1) = (if is_ok r1
        then map (\<lambda>a. if ap_key a = i \<and> ap_life a = Starting then a\<lparr>ap_life := Broken\<rparr> else a) (apps_of (rows d))
        else apps_of (rows d))" if "launch_watcher db i d = (r1, d1)"
    using app_store.watcher_apps [OF assms(1) that] by (simp add: turn_def)
  show "apps_of (rows d2) = (if is_ok r2
        then map (\<lambda>a. if ap_secret a = token then a\<lparr>ap_life := Broken\<rparr> else a) (apps_of (rows d))
        else apps_of (rows d))" if "mark_application_failed db token (d, n) = (r2, d2, n2)"
    using app_store.mark_failed_apps [OF assms(1) that] by (simp add: turn_def)
  show "if is_ok r3
       then \<exists>t. from_timestamp (prune_cutoff_secs now older) = Some t \<and> apps_of (rows d3) =
          filter (\<lambda>a. \<not> (ap_life a \<in> {Broken, Ended} \<and> ap_since a \<le> t)) (apps_of (rows d))
       else apps_of (rows d3) = apps_of (rows d)" if p: "prune db up (Ok now) from_timestamp older d = (r3, d3)"
  proof -
    have "if is_ok r3 then \<exists>t. from_timestamp (prune_cutoff_secs now older) = Some t \<and>
        apps_of (rows d3) = app_effect (PruneUntil t) (apps_of (rows d)) else apps_of (rows d3) = apps_of (rows d)"
      by (rule app_store.prune_apps [OF assms(1) _ p]) (rule assms(2))
    then show ?thesis by (simp only: app_effect.simps)
  qed
  show "app_reach (S \<union> {CheckFailed (app_id m) | m. m \<in> set (rows d) \<and> app_state m = RUNNING})
        (apps_of (rows d)) (apps_of (rows d4))" if "check db up http sleep (d, n) = (r4, d4, n4)"
    using app_store.check_app_reach [OF assms(1) _ assms(3) that] assms(2) by simp
qed

text \<open>The watcher of an application that is still launching, and of one that is running.\<close>

theorem background_refines_apps_witness:
  "map app_state (table (snd (launch_watcher mem_db 1 (demo_mem\<lparr>table := demo_rows\<rparr>)))) = [FAILED] \<and>
   map app_state (table (snd (launch_watcher mem_db 1 demo_mem))) = [RUNNING]"
proof -
  have watch: "\<exists>d1. launch_watcher mem_db 1 d = (Ok (length (matching [CEq ColId (VInt 1), CEq ColState (VState LAUNCHING)] (table d))), d1)"
    if "faults d = []" for d using that by (simp add: launch_watcher_def mem_db_def with_fault_def mem_update_many_def)
  have effect: "apps_of (table (snd (launch_watcher mem_db 1 d))) =
      map (\<lambda>a. if ap_key a = 1 \<and> ap_life a = Starting then a\<lparr>ap_life := Broken\<rparr> else a) (apps_of (table d))"
    if "faults d = []" for d
  proof -
    from watch [OF that] obtain k d1 where w: "launch_watcher mem_db 1 d = (Ok k, d1)" by blast
    show ?thesis
      using background_refines_apps [where S = "{}" and up = "\<lambda>ms d. (Ok (), d)" and sleep = "\<lambda>k s. s :: mem \<times> nat" and i = 1
          and d = d and ?r1.0 = "Ok k" and ?d1.0 = d1, OF mem.app_store_axioms _ app_refl] w by simp
  qed
  have one: "app_state m = FAILED" if "view_of m = a\<lparr>ap_life := Broken\<rparr>" for m a
    using view_of_simps(6) [of m] that by simp
  have up: "app_state m = RUNNING" if "view_of m = view_of demo_app" for m
    using that by (auto simp: view_of_def demo_app_def split: State.splits)
  have f: "faults demo_mem = []" "faults (demo_mem\<lparr>table := demo_rows\<rparr>) = []" by (simp_all add: demo_mem_def)
  have a: "apps_of (table demo_mem) = [view_of demo_app]" "ap_life (view_of demo_app) \<noteq> Starting"
    "apps_of demo_rows = [view_of (hd demo_rows)]" "ap_life (view_of (hd demo_rows)) = Starting" "app_id (hd demo_rows) = 1"
    by (simp_all add: apps_of_def demo_mem_def demo_app_def demo_rows_def)
  have "apps_of (table (snd (launch_watcher mem_db 1 demo_mem))) = [view_of demo_app]"
    "apps_of (table (snd (launch_watcher mem_db 1 (demo_mem\<lparr>table := demo_rows\<rparr>)))) = [(view_of (hd demo_rows))\<lparr>ap_life := Broken\<rparr>]"
    using effect [OF f(1)] effect [OF f(2)] a by simp_all
  with one up show ?thesis by (auto simp: apps_of_def map_eq_Cons_conv)
qed

end
