(* ===== verification/Proxy_Tasks.thy ===== *)
theory Proxy_Tasks
  imports Lifecycle
begin

text \<open>
  The tasks of the Spark Connect proxy running side by side (\<open>server/src/proxy.rs\<close>). A request task
  runs \<open>dispatch_request\<close>, a dispatcher task runs \<open>upstream_connection\<close>, a response task delivers
  the answer of the upstream; between their suspension points any other task may run, other parts of
  the server write to the table and remove dispatchers from the cache, requesters give up, and
  tasks may die. The first part cuts the two task bodies at their suspension points and
  interleaves the pieces, the second has the lemmas about single turns. The invariants of all runs
  are in \<open>Proxy_Runs\<close>; that the pieces of one task, run in sequence, are the handlers of \<open>Upstream\<close>
  is in \<open>Proxy_Refinement\<close>.
\<close>

section \<open>Definitions\<close>

subsection \<open>Channels and dispatchers\<close>

text \<open>A message of a channel: the request, and the sending half of the oneshot channel for its answer,
  known by its number.\<close>

type_synonym message = "Request \<times> nat"

text \<open>Where a dispatcher is in the body of its loop: waiting in \<open>recv\<close>, in
  \<open>resolve_upstream_address\<close>, before connection attempt \<open>k\<close>, before \<open>mark_application_failed\<close>, or
  before forwarding.\<close>

datatype dispatch_phase =
    Receiving
  | Resolving message
  | Dialing message string nat
  | Marking message Error
  | Forwarding message

record 'snd dispatcher =
  d_token :: string
  d_queue :: "message list"
  d_upstream :: "('snd \<times> string) option"
  d_phase :: dispatch_phase

text \<open>Channels are numbered; the dispatcher of a channel is \<open>None\<close> once its task has ended. Answers
  are the values sent on the oneshot channels, and \<open>net_inflight\<close> are the answers that a response
  task will send.\<close>

record 'snd net =
  net_chans :: "'snd dispatcher option list"
  net_next_rx :: nat
  net_answers :: "(nat \<times> (Response, Error) Result) list"
  net_inflight :: "nat list"

definition chan_at :: "'snd net \<Rightarrow> nat \<Rightarrow> 'snd dispatcher option" where
  "chan_at n c = (if c < length (net_chans n) then net_chans n ! c else None)"

definition put_chan :: "nat \<Rightarrow> 'snd dispatcher option \<Rightarrow> 'snd net \<Rightarrow> 'snd net" where
  "put_chan c d n = n\<lparr>net_chans := (net_chans n)[c := d]\<rparr>"

definition new_dispatcher :: "string \<Rightarrow> 'snd dispatcher" where
  "new_dispatcher t = \<lparr>d_token = t, d_queue = [], d_upstream = None, d_phase = Receiving\<rparr>"

definition task_ops :: "'snd net chan_ops" where
  "task_ops = \<lparr>
     unbounded_channel = (\<lambda>n. (length (net_chans n), n\<lparr>net_chans := net_chans n @ [None]\<rparr>)),
     is_closed = (\<lambda>c n. chan_at n c = None),
     spawn_dispatcher = (\<lambda>c t n. put_chan c (Some (new_dispatcher t)) n),
     chan_send = (\<lambda>c req n.
       (case chan_at n c of
          None \<Rightarrow> (None, n)
        | Some d \<Rightarrow>
            (Some (net_next_rx n),
             (put_chan c (Some (d\<lparr>d_queue := d_queue d @ [(req, net_next_rx n)]\<rparr>)) n)
               \<lparr>net_next_rx := Suc (net_next_rx n)\<rparr>))),
     await_answer = (\<lambda>rx n. (hm_get (net_answers n) rx, n))\<rparr>"

text \<open>The answers that are still owed: of the message in work, of the queue, and of the response
  tasks.\<close>

fun in_work :: "dispatch_phase \<Rightarrow> message list" where
  "in_work Receiving = []"
| "in_work (Resolving m) = [m]"
| "in_work (Dialing m a k) = [m]"
| "in_work (Marking m e) = [m]"
| "in_work (Forwarding m) = [m]"

definition messages :: "'snd dispatcher \<Rightarrow> message list" where
  "messages d = in_work (d_phase d) @ d_queue d"

definition owed :: "'snd dispatcher option \<Rightarrow> nat list" where
  "owed opt = (case opt of None \<Rightarrow> [] | Some d \<Rightarrow> map snd (messages d))"

definition queued :: "'snd net \<Rightarrow> nat list" where
  "queued n = concat (map owed (net_chans n))"

definition pending :: "'snd net \<Rightarrow> nat list" where
  "pending n = queued n @ net_inflight n"

subsection \<open>A request task\<close>

text \<open>Where \<open>dispatch_request\<close> is: at its start, in the query of \<open>sender_for\<close>, before the second
  critical section, before \<open>send\<close>, in \<open>rx.await\<close> (still holding its sender), or finished; or the
  task was dropped because the requester went away.\<close>

datatype request_state =
    Received
  | Looking string
  | Inserting string
  | Sending string nat
  | Awaiting nat nat
  | Completed "(Response, Error) Result"
  | Dropped

definition request_turn ::
  "'d db_ops \<Rightarrow> Request \<Rightarrow> request_state \<Rightarrow> 'd \<times> connections \<times> 'snd net
   \<Rightarrow> (request_state \<times> 'd \<times> connections \<times> 'snd net) option" where
  "request_turn db req st w =
     (case w of (d, conns, n) \<Rightarrow>
        (case st of
           Received \<Rightarrow>
             (case extract_bearer_token (req_headers req) of
                Err e \<Rightarrow> Some (Completed (Err e), d, conns, n)
              | Ok t \<Rightarrow>
                  (case open_sender task_ops conns t n of
                     Some c \<Rightarrow> Some (Sending t c, d, conns, n)
                   | None \<Rightarrow> Some (Looking t, d, conns, n)))
         | Looking t \<Rightarrow>
             (case db_one db (by_token t) d of
                (Err e, d) \<Rightarrow> Some (Completed (Err (Database e)), d, conns, n)
              | (Ok None, d) \<Rightarrow> Some (Completed (Err ApplicationNotFound), d, conns, n)
              | (Ok (Some app), d) \<Rightarrow> Some (Inserting t, d, conns, n))
         | Inserting t \<Rightarrow>
             (case sender_for_insert task_ops t conns n of
                (c, conns, n) \<Rightarrow> Some (Sending t c, d, conns, n))
         | Sending t c \<Rightarrow>
             (case chan_send task_ops c req n of
                (None, n) \<Rightarrow>
                  Some (Completed (Err (Internal ''Upstream unexpectedly closed'')), d,
                        remove_closed task_ops t conns n, n)
              | (Some rx, n) \<Rightarrow> Some (Awaiting c rx, d, conns, n))
         | Awaiting c rx \<Rightarrow>
             if rx \<in> set (pending n) then None
             else (case await_answer task_ops rx n of
                     (None, n) \<Rightarrow>
                       Some (Completed (Err (Internal
                         ''Upstream response channel unexpectedly closed'')), d, conns, n)
                   | (Some res, n) \<Rightarrow> Some (Completed res, d, conns, n))
         | Completed res \<Rightarrow> None
         | Dropped \<Rightarrow> None))"

subsection \<open>A dispatcher task\<close>

text \<open>What a turn of a dispatcher does beside changing its own state: nothing, waiting for the next
  poll, sending an error to a requester, handing a request to the upstream connection, ending
  because every sender is gone, or panicking in \<open>upstream.as_mut().unwrap()\<close>.\<close>

datatype effect =
    Continues
  | Waits
  | Replies nat Error
  | Sends Request nat string
  | Ends
  | Panics

definition retryable :: "Error \<Rightarrow> bool" where
  "retryable e = (case e of UpstreamConnect m \<Rightarrow> True | UpstreamHandshake m \<Rightarrow> True | _ \<Rightarrow> False)"

definition dispatcher_turn ::
  "'d db_ops \<Rightarrow> ('snd, 'n) h2_ops \<Rightarrow> ('d \<times> 'n \<Rightarrow> bool) \<Rightarrow> 'snd dispatcher \<Rightarrow> 'd \<times> 'n
   \<Rightarrow> (effect \<times> 'snd dispatcher \<times> 'd \<times> 'n) option" where
  "dispatcher_turn db h2 closed d s =
     (case d_phase d of
        Receiving \<Rightarrow>
          (case d_queue d of
             [] \<Rightarrow> if closed s then Some (Ends, d, s) else None
           | (req, rx) # q \<Rightarrow>
               let d = d\<lparr>d_queue := q\<rparr>
               in (case extract_bearer_token (req_headers req) of
                     Err e \<Rightarrow> Some (Replies rx e, d, s)
                   | Ok t \<Rightarrow>
                       if t \<noteq> d_token d then Some (Replies rx InvalidAuthorizationToken, d, s)
                       else if d_upstream d = None
                       then Some (Continues, d\<lparr>d_phase := Resolving (req, rx)\<rparr>, s)
                       else Some (Continues, d\<lparr>d_phase := Forwarding (req, rx)\<rparr>, s)))
      | Resolving (req, rx) \<Rightarrow>
          if waiting db closed (d_token d) s
          then Some (Waits, d, poll_end db closed (d_token d) s)
          else (case address_answer db closed (d_token d) s of
                  Err e \<Rightarrow> Some (Replies rx e, d\<lparr>d_phase := Receiving\<rparr>,
                                 poll_end db closed (d_token d) s)
                | Ok a \<Rightarrow> Some (Continues, d\<lparr>d_phase := Dialing (req, rx) a 0\<rparr>,
                                poll_end db closed (d_token d) s))
      | Dialing (req, rx) a k \<Rightarrow>
          (case connect_upstream h2 a s of
             (Ok x, s) \<Rightarrow>
               Some (Continues, d\<lparr>d_upstream := Some (x, a), d_phase := Forwarding (req, rx)\<rparr>, s)
           | (Err e, s) \<Rightarrow>
               if \<not> retryable e then Some (Replies rx e, d\<lparr>d_phase := Receiving\<rparr>, s)
               else if k < MAX_UPSTREAM_CONNECT_RETRIES
               then Some (Continues, d\<lparr>d_phase := Dialing (req, rx) a (Suc k)\<rparr>, s)
               else Some (Continues, d\<lparr>d_phase := Marking (req, rx) e\<rparr>, s))
      | Marking (req, rx) e \<Rightarrow>
          (case mark_application_failed db (d_token d) s of
             (Err e', s) \<Rightarrow> Some (Replies rx e', d\<lparr>d_phase := Receiving\<rparr>, s)
           | (Ok _, s) \<Rightarrow> Some (Replies rx e, d\<lparr>d_phase := Receiving\<rparr>, s))
      | Forwarding (req, rx) \<Rightarrow>
          (case d_upstream d of
             None \<Rightarrow> Some (Panics, d, s)
           | Some up \<Rightarrow>
               (case forward_request h2 up req s of
                  (Reply e, up', s) \<Rightarrow>
                    Some (Replies rx e, d\<lparr>d_upstream := up', d_phase := Receiving\<rparr>, s)
                | (Forwarded x req' response, up', s) \<Rightarrow>
                    Some (Sends req' rx (snd up), d\<lparr>d_upstream := up', d_phase := Receiving\<rparr>, s))))"

subsection \<open>The system\<close>

text \<open>The shared state, and the history the properties speak about: the tokens applications were
  created with, the addresses sessions registered, and the requests sent upstream.\<close>

record ('d, 'snd, 'n) sys =
  sys_db :: 'd
  sys_h2 :: 'n
  sys_cache :: connections
  sys_net :: "'snd net"
  sys_tasks :: "(Request \<times> request_state) list"
  sys_known :: "string set"
  sys_registered :: "(string \<times> string) set"
  sys_sent :: "(nat \<times> Request \<times> string) list"

fun holds_sender :: "nat \<Rightarrow> request_state \<Rightarrow> bool" where
  "holds_sender c (Sending t c') = (c = c')"
| "holds_sender c (Awaiting c' rx) = (c = c')"
| "holds_sender c st = False"

text \<open>\<open>rx.is_closed()\<close>: no sender of the channel is left in the cache or with a request.\<close>

definition no_sender :: "nat \<Rightarrow> ('d, 'snd, 'n) sys \<Rightarrow> bool" where
  "no_sender c s \<longleftrightarrow>
     c \<notin> snd ` set (sys_cache s) \<and> list_all (\<lambda>(req, st). \<not> holds_sender c st) (sys_tasks s)"

definition answer :: "nat \<Rightarrow> (Response, Error) Result \<Rightarrow> 'snd net \<Rightarrow> 'snd net" where
  "answer rx r n = n\<lparr>net_answers := (rx, r) # net_answers n\<rparr>"

definition remains :: "effect \<Rightarrow> 'snd dispatcher \<Rightarrow> 'snd dispatcher option" where
  "remains eff d = (case eff of Ends \<Rightarrow> None | Panics \<Rightarrow> None | _ \<Rightarrow> Some d)"

definition net_after :: "nat \<Rightarrow> effect \<Rightarrow> 'snd dispatcher \<Rightarrow> 'snd net \<Rightarrow> 'snd net" where
  "net_after c eff d n =
     (case eff of
        Replies rx e \<Rightarrow> answer rx (Err e) (put_chan c (remains eff d) n)
      | Sends req rx a \<Rightarrow> (put_chan c (remains eff d) n)\<lparr>net_inflight := rx # net_inflight n\<rparr>
      | _ \<Rightarrow> put_chan c (remains eff d) n)"

definition after_turn ::
  "nat \<Rightarrow> effect \<Rightarrow> 'snd dispatcher \<Rightarrow> 'd \<times> 'n \<Rightarrow> ('d, 'snd, 'n) sys \<Rightarrow> ('d, 'snd, 'n) sys" where
  "after_turn c eff d w s =
     s\<lparr>sys_db := fst w, sys_h2 := snd w, sys_net := net_after c eff d (sys_net s),
       sys_sent := (case eff of Sends req rx a \<Rightarrow> [(rx, req, a)] | _ \<Rightarrow> []) @ sys_sent s\<rparr>"

text \<open>What a statement adds to the history.\<close>

fun created_tokens :: "stmt \<Rightarrow> string set" where
  "created_tokens (InsertApp u nm t) = {t}"
| "created_tokens c = {}"

fun registered_addresses :: "stmt \<Rightarrow> (string \<times> string) set" where
  "registered_addresses (Register t params) = {(t, acr_address params)}"
| "registered_addresses c = {}"

datatype proxy_event =
    Arrives Request
  | Runs nat
  | GivesUp nat
  | Dispatches nat effect
  | Responds nat
  | Dies nat
  | DiesResponding nat
  | Writes stmt
  | Invalidates string
  | NetworkChanges

inductive sys_step ::
  "'d db_ops \<Rightarrow> ('d \<Rightarrow> Model list) \<Rightarrow> ('snd, 'n) h2_ops
   \<Rightarrow> ('d, 'snd, 'n) sys \<Rightarrow> proxy_event \<Rightarrow> ('d, 'snd, 'n) sys \<Rightarrow> bool"
  for db :: "'d db_ops" and rows :: "'d \<Rightarrow> Model list" and h2 :: "('snd, 'n) h2_ops" where
  arrives: "sys_step db rows h2 s (Arrives req) (s\<lparr>sys_tasks := sys_tasks s @ [(req, Received)]\<rparr>)"
| runs: "i < length (sys_tasks s) \<Longrightarrow> sys_tasks s ! i = (req, st) \<Longrightarrow>
    request_turn db req st (sys_db s, sys_cache s, sys_net s) = Some (st', d, conns, n) \<Longrightarrow>
    sys_step db rows h2 s (Runs i)
      (s\<lparr>sys_db := d, sys_cache := conns, sys_net := n, sys_tasks := (sys_tasks s)[i := (req, st')]\<rparr>)"
| gives_up: "i < length (sys_tasks s) \<Longrightarrow> sys_tasks s ! i = (req, st) \<Longrightarrow> (\<And>r. st \<noteq> Completed r) \<Longrightarrow>
    sys_step db rows h2 s (GivesUp i) (s\<lparr>sys_tasks := (sys_tasks s)[i := (req, Dropped)]\<rparr>)"
| dispatches: "chan_at (sys_net s) c = Some d \<Longrightarrow>
    dispatcher_turn db h2 (\<lambda>_. no_sender c s) d (sys_db s, sys_h2 s) = Some (eff, d', w) \<Longrightarrow>
    sys_step db rows h2 s (Dispatches c eff) (after_turn c eff d' w s)"
| responds: "rx \<in> set (net_inflight (sys_net s)) \<Longrightarrow> (\<And>e. res = Err e \<Longrightarrow> \<exists>m. e = UpstreamRequest m) \<Longrightarrow>
    sys_step db rows h2 s (Responds rx)
      (s\<lparr>sys_net := answer rx res
           ((sys_net s)\<lparr>net_inflight := remove1 rx (net_inflight (sys_net s))\<rparr>)\<rparr>)"
| dies: "sys_step db rows h2 s (Dies c) (s\<lparr>sys_net := put_chan c None (sys_net s)\<rparr>)"
| dies_responding: "sys_step db rows h2 s (DiesResponding rx)
    (s\<lparr>sys_net := (sys_net s)\<lparr>net_inflight := remove1 rx (net_inflight (sys_net s))\<rparr>\<rparr>)"
| writes: "step (rows (sys_db s)) c (rows d) \<Longrightarrow>
    sys_step db rows h2 s (Writes c)
      (s\<lparr>sys_db := d, sys_known := sys_known s \<union> created_tokens c,
         sys_registered := sys_registered s \<union> registered_addresses c\<rparr>)"
| invalidates: "sys_step db rows h2 s (Invalidates t) (s\<lparr>sys_cache := invalidate t (sys_cache s)\<rparr>)"
| network_changes: "sys_step db rows h2 s NetworkChanges (s\<lparr>sys_h2 := n\<rparr>)"

inductive sys_run ::
  "'d db_ops \<Rightarrow> ('d \<Rightarrow> Model list) \<Rightarrow> ('snd, 'n) h2_ops
   \<Rightarrow> ('d, 'snd, 'n) sys \<Rightarrow> proxy_event list \<Rightarrow> ('d, 'snd, 'n) sys \<Rightarrow> bool"
  for db :: "'d db_ops" and rows :: "'d \<Rightarrow> Model list" and h2 :: "('snd, 'n) h2_ops" where
  run_nil: "sys_run db rows h2 s [] s"
| run_snoc: "sys_run db rows h2 s es s' \<Longrightarrow> sys_step db rows h2 s' e s'' \<Longrightarrow>
    sys_run db rows h2 s (es @ [e]) s''"

text \<open>The proxy as \<open>UpstreamConnectionCache::new\<close> leaves it, over the table of the database.\<close>

definition recorded :: "Model list \<Rightarrow> (string \<times> string) set" where
  "recorded ms =
     (\<Union>m \<in> set ms. case app_address m of None \<Rightarrow> {} | Some a \<Rightarrow> {(app_token m, a)})"

definition sys_init :: "('d \<Rightarrow> Model list) \<Rightarrow> 'd \<Rightarrow> 'n \<Rightarrow> ('d, 'snd, 'n) sys" where
  "sys_init rows d n = \<lparr>
     sys_db = d, sys_h2 = n, sys_cache = [],
     sys_net = \<lparr>net_chans = [], net_next_rx = 0, net_answers = [], net_inflight = []\<rparr>,
     sys_tasks = [], sys_known = app_token ` set (rows d),
     sys_registered = recorded (rows d), sys_sent = []\<rparr>"

text \<open>Runs in which no task dies.\<close>

fun no_death :: "proxy_event \<Rightarrow> bool" where
  "no_death (Dies c) = False"
| "no_death (DiesResponding rx) = False"
| "no_death e = True"

section \<open>Lemmas\<close>

lemma recorded_iff: "(t, a) \<in> recorded ms \<longleftrightarrow> (\<exists>m \<in> set ms. app_token m = t \<and> app_address m = Some a)"
  by (auto simp: recorded_def intro!: bexI split: option.splits)


lemma chan_at_put [simp]:
  "chan_at (put_chan c d n) c' = (if c' = c \<and> c < length (net_chans n) then d else chan_at n c')"
  by (auto simp: chan_at_def put_chan_def)

lemma put_chan_simps [simp]:
  "length (net_chans (put_chan c d n)) = length (net_chans n)"
  "net_next_rx (put_chan c d n) = net_next_rx n"
  "net_answers (put_chan c d n) = net_answers n"
  "net_inflight (put_chan c d n) = net_inflight n"
  by (simp_all add: put_chan_def)

lemma put_chan_beyond [simp]: "\<not> c < length (net_chans n) \<Longrightarrow> put_chan c d n = n"
  by (cases n) (simp add: put_chan_def linorder_not_less list_update_beyond)

lemma chan_at_SomeD: "chan_at n c = Some d \<Longrightarrow> c < length (net_chans n) \<and> net_chans n ! c = Some d"
  by (auto simp: chan_at_def split: if_splits)

lemma chan_at_fields [simp]:
  "chan_at (n\<lparr>net_answers := as\<rparr>) = chan_at n"
  "chan_at (n\<lparr>net_inflight := rxs\<rparr>) = chan_at n"
  "chan_at (n\<lparr>net_next_rx := k\<rparr>) = chan_at n"
  by (simp_all add: chan_at_def fun_eq_iff)

interpretation tasks: dispatcher_runtime task_ops "\<lambda>n c. map_option d_token (chan_at n c)"
  "\<lambda>n. {..<length (net_chans n)}"
  by unfold_locales
    (auto simp: task_ops_def chan_at_def put_chan_def nth_append new_dispatcher_def fun_eq_iff)

subsection \<open>One turn of a dispatcher\<close>

text \<open>The errors that would show a dispatcher out of step with its requests: a request of another
  token, or a lost channel.\<close>

definition ordinary :: "Error \<Rightarrow> bool" where
  "ordinary e \<longleftrightarrow> e \<noteq> InvalidAuthorizationToken \<and> (\<forall>m. e \<noteq> Internal m)"

definition disp_ok :: "('snd, 'n) h2_ops \<Rightarrow> (string \<times> string) set \<Rightarrow> 'snd dispatcher \<Rightarrow> bool" where
  "disp_ok h2 reg d \<longleftrightarrow>
     list_all (\<lambda>(req, rx). extract_bearer_token (req_headers req) = Ok (d_token d)) (messages d) \<and>
     (\<forall>x a. d_upstream d = Some (x, a) \<longrightarrow> (d_token d, a) \<in> reg \<and> opened_to h2 a x) \<and>
     (case d_phase d of
        Dialing m a k \<Rightarrow> (d_token d, a) \<in> reg \<and> k \<le> MAX_UPSTREAM_CONNECT_RETRIES
      | Marking m e \<Rightarrow> ordinary e
      | Forwarding m \<Rightarrow> d_upstream d \<noteq> None
      | _ \<Rightarrow> True)"

lemma retryable_ordinary: "retryable e \<Longrightarrow> ordinary e"
  by (auto simp: retryable_def ordinary_def split: Error.splits)

lemma address_answer_ordinary: "address_answer db closed t s = Err e \<Longrightarrow> ordinary e"
  by (auto simp: address_answer_def ordinary_def split: if_splits Result.splits option.splits)

lemma mark_failed_ordinary: "mark_application_failed db t s = (Err e, s') \<Longrightarrow> ordinary e"
  by (auto simp: mark_application_failed_def ordinary_def split: Result.splits prod.splits)

lemma extract_ordinary: "extract_bearer_token h = Err e \<Longrightarrow> ordinary e"
  by (auto simp: extract_bearer_token_def ordinary_def split: option.splits Result.splits if_splits)

lemma connect_ordinary: "connect_upstream h2 a s = (Err e, s') \<Longrightarrow> ordinary e"
  by (auto simp: connect_upstream_def ordinary_def split: Result.splits prod.splits)

lemma forward_cases:
  assumes "forward_request h2 (x, a) req s = (out, up, s')"
  obtains (reply) e where "out = Reply e" "ordinary e" "up = Some (x, a) \<or> up = None" "fst s' = fst s"
    | (sent) uri rx where "out = Forwarded x (req\<lparr>req_uri := uri\<rparr>) rx" "up = Some (x, a)" "fst s' = fst s"
  using assms
  by (auto simp: forward_request_def Let_def ordinary_def split: Result.splits prod.splits)

lemmas turn_splits = dispatch_phase.splits list.splits Result.splits if_splits option.splits prod.splits outcome.splits

lemma recorded_mono_update: "recorded (update_rows failed_assigns cs ms) \<subseteq> recorded ms"
  by (auto simp: recorded_iff set_update_rows failed_assigns_def split: if_splits)

lemma dispatcher_turn_token:
  "dispatcher_turn db h2 closed d s = Some (eff, d', s') \<Longrightarrow> d_token d' = d_token d"
  by (auto simp: dispatcher_turn_def Let_def split: turn_splits)

text \<open>What a turn answers or sends, it owed, and it owes everything else afterwards.\<close>

definition settled :: "effect \<Rightarrow> nat list" where
  "settled eff = (case eff of Replies rx e \<Rightarrow> [rx] | Sends req rx a \<Rightarrow> [rx] | _ \<Rightarrow> [])"

lemma dispatcher_turn_owed:
  assumes "dispatcher_turn db h2 closed d s = Some (eff, d', s')" and "eff \<noteq> Panics"
  shows "owed (Some d) = settled eff @ owed (remains eff d')"
  using assms
  by (auto simp: dispatcher_turn_def Let_def messages_def owed_def settled_def remains_def split: turn_splits
      elim!: forward_cases)

lemma update_rows_tokens:
  "keeps_identity as \<Longrightarrow> app_token ` set (update_rows as cs ms) = app_token ` set ms"
  by (metis set_map update_rows_keeps(1))

context app_store
begin

lemma one_fst: "rows (snd (db_one db cs d)) = rows d"
  using one_rows [of cs d] by (cases "db_one db cs d") auto

lemma poll_end_rows: "rows (fst (poll_end db closed t s)) = rows (fst s)"
  by (simp add: poll_end_def one_fst)

lemma address_answer_recorded:
  assumes "address_answer db closed t s = Ok a"
  shows "(t, a) \<in> recorded (rows (fst s))"
proof -
  obtain q d where q: "db_one db (by_token t) (fst s) = (q, d)" by (rule prod.exhaust)
  with assms obtain m where m: "q = Ok (Some m)" "app_address m = Some a"
    by (auto simp: address_answer_def split: if_splits Result.splits option.splits)
  from one_SomeD [OF q [unfolded m]] have "m \<in> set (rows (fst s))" "app_token m = t"
    by (auto simp: by_token_def)
  with m show ?thesis by (auto simp: recorded_iff)
qed

lemma mark_failed_recorded:
  assumes "mark_application_failed db t s = (r, s')"
  shows "recorded (rows (fst s')) \<subseteq> recorded (rows (fst s))"
    and "app_token ` set (rows (fst s')) = app_token ` set (rows (fst s))"
proof -
  have "keeps_identity failed_assigns" using keeps_identity_stmt [of "ConnectFailed t"] by simp
  note keep = update_rows_tokens [OF this]
  from assms have "recorded (rows (fst s')) \<subseteq> recorded (rows (fst s)) \<and>
      app_token ` set (rows (fst s')) = app_token ` set (rows (fst s))"
  proof (cases rule: mark_failed_cases)
  qed (use recorded_mono_update keep in auto)
  then show "recorded (rows (fst s')) \<subseteq> recorded (rows (fst s))"
    and "app_token ` set (rows (fst s')) = app_token ` set (rows (fst s))" by auto
qed

end

context app_store
begin

text \<open>A turn keeps a dispatcher in order, never panics, forwards only requests of its own token to an
  address registered for it, and answers only with ordinary errors.\<close>

lemma dispatcher_turn_db:
  assumes "dispatcher_turn db h2 closed d s = Some (eff, d', s')"
  shows "recorded (rows (fst s')) \<subseteq> recorded (rows (fst s))"
    and "app_token ` set (rows (fst s')) = app_token ` set (rows (fst s))"
proof -
  have "recorded (rows (fst s')) \<subseteq> recorded (rows (fst s)) \<and>
      app_token ` set (rows (fst s')) = app_token ` set (rows (fst s))"
  proof (cases "d_phase d")
    case (Marking m e)
    with assms mark_failed_recorded [of "d_token d" s] show ?thesis
      by (auto simp: dispatcher_turn_def split: prod.splits Result.splits)
  next
    case (Dialing m a k)
    with assms connect_upstream_db [of h2 a s] show ?thesis
      by (auto simp: dispatcher_turn_def split: prod.splits Result.splits if_splits)
  next
    case (Forwarding m)
    with assms show ?thesis
      by (auto simp: dispatcher_turn_def split: prod.splits option.splits outcome.splits elim!: forward_cases)
  qed (use assms in \<open>auto simp: dispatcher_turn_def Let_def poll_end_rows
      split: list.splits prod.splits if_splits Result.splits\<close>)
  then show "recorded (rows (fst s')) \<subseteq> recorded (rows (fst s))"
    and "app_token ` set (rows (fst s')) = app_token ` set (rows (fst s))" by auto
qed

lemma dispatcher_turn_ok:
  assumes ok: "disp_ok h2 reg d" and reg: "recorded (rows (fst s)) \<subseteq> reg"
    and turn: "dispatcher_turn db h2 closed d s = Some (eff, d', s')"
  shows "disp_ok h2 reg d'"
    and "eff \<noteq> Panics" and "eff = Replies rx e \<Longrightarrow> ordinary e"
    and "eff = Sends req rx a \<Longrightarrow>
      extract_bearer_token (req_headers req) = Ok (d_token d) \<and> (d_token d, a) \<in> reg"
proof -
  let ?P = "disp_ok h2 reg d' \<and> eff \<noteq> Panics \<and> (eff = Replies rx e \<longrightarrow> ordinary e) \<and>
     (eff = Sends req rx a \<longrightarrow>
      extract_bearer_token (req_headers req) = Ok (d_token d) \<and> (d_token d, a) \<in> reg)"
  have ?P
  proof (cases "d_phase d")
    case Receiving
    with ok turn show ?thesis
      by (auto simp: dispatcher_turn_def Let_def disp_ok_def messages_def
          split: list.splits if_splits Result.splits)
  next
    case (Resolving m)
    have "(d_token d, a) \<in> reg" if "address_answer db closed (d_token d) s = Ok a" for a
      using address_answer_recorded [OF that] reg by blast
    with Resolving ok turn show ?thesis
      by (auto simp: dispatcher_turn_def disp_ok_def messages_def dest: address_answer_ordinary
          split: prod.splits if_splits Result.splits)
  next
    case (Dialing m a k)
    with ok turn show ?thesis
      by (auto simp: dispatcher_turn_def disp_ok_def messages_def dest: connect_upstream_Ok connect_ordinary
          split: prod.splits if_splits Result.splits)
  next
    case (Marking m e)
    with ok turn show ?thesis
      by (auto simp: dispatcher_turn_def disp_ok_def messages_def dest: mark_failed_ordinary
          split: prod.splits Result.splits)
  next
    case (Forwarding m)
    with ok obtain x b where "d_upstream d = Some (x, b)" by (auto simp: disp_ok_def)
    with Forwarding ok turn show ?thesis
      by (auto simp: dispatcher_turn_def disp_ok_def messages_def split: prod.splits outcome.splits
          elim!: forward_cases)
  qed
  then show "disp_ok h2 reg d'"
    and "eff \<noteq> Panics" and "eff = Replies rx e \<Longrightarrow> ordinary e"
    and "eff = Sends req rx a \<Longrightarrow>
      extract_bearer_token (req_headers req) = Ok (d_token d) \<and> (d_token d, a) \<in> reg" by auto
qed

end

end
