(* ===== verification/Proxy_Runs.thy ===== *)
theory Proxy_Runs
  imports Proxy_Tasks
begin

text \<open>
  What holds in every run of the proxy's tasks (\<open>Proxy_Tasks\<close>): accounting of the answers that are
  owed, the invariant of all interleavings, the stronger one of runs in which no task dies, that
  requests are sent at most once, and a bound on the work of a dispatcher. The runs that serve as
  examples are replayed over the in-memory table.
\<close>

section \<open>Lemmas\<close>

subsection \<open>Accounting of answers\<close>

text \<open>Every answer that is owed or was given.\<close>

definition ledger :: "'snd net \<Rightarrow> nat multiset" where
  "ledger n = mset (pending n) + mset (map fst (net_answers n))"

lemma mset_queued_put:
  assumes "c < length (net_chans n)"
  shows "mset (queued (put_chan c d n)) + mset (owed (chan_at n c)) = mset (queued n) + mset (owed d)"
proof -
  have "mset (concat (map owed ((net_chans n)[c := d]))) + mset (owed (net_chans n ! c)) =
      mset (concat (map owed (net_chans n))) + mset (owed d)"
    using assms by (subst (2) id_take_nth_drop [OF assms]) (simp add: upd_conv_take_nth_drop)
  then show ?thesis using assms by (simp add: queued_def put_chan_def chan_at_def)
qed

lemma queued_simps [simp]:
  "queued (n\<lparr>net_answers := as\<rparr>) = queued n"
  "queued (n\<lparr>net_inflight := rxs\<rparr>) = queued n"
  "queued (n\<lparr>net_next_rx := k\<rparr>) = queued n"
  "queued (n\<lparr>net_chans := net_chans n @ [None]\<rparr>) = queued n"
  by (simp_all add: queued_def owed_def)

lemma pending_simps [simp]:
  "pending (n\<lparr>net_answers := as\<rparr>) = pending n"
  "pending (n\<lparr>net_next_rx := k\<rparr>) = pending n"
  "pending (n\<lparr>net_chans := net_chans n @ [None]\<rparr>) = pending n"
  by (simp_all add: pending_def)

lemma ledger_put:
  assumes "c < length (net_chans n)"
  shows "ledger (put_chan c d n) + mset (owed (chan_at n c)) = ledger n + mset (owed d)"
  using mset_queued_put [OF assms, of d] by (simp add: ledger_def pending_def ac_simps)

lemma queued_after_turn:
  assumes c: "chan_at n c = Some d" and turn: "dispatcher_turn db h2 closed d w = Some (eff, d', w')"
    and "eff \<noteq> Panics"
  shows "mset (queued n) = mset (settled eff) + mset (queued (net_after c eff d' n))"
proof -
  have "queued (net_after c eff d' n) = queued (put_chan c (remains eff d') n)"
    by (simp add: net_after_def answer_def split: effect.splits)
  then show ?thesis
    using mset_queued_put [of c n "remains eff d'"] chan_at_SomeD [OF c] c
      dispatcher_turn_owed [OF turn assms(3)] by (simp add: ac_simps)
qed

lemma ledger_after_turn:
  assumes "chan_at n c = Some d" and "dispatcher_turn db h2 closed d w = Some (eff, d', w')"
    and "eff \<noteq> Panics"
  shows "ledger (net_after c eff d' n) = ledger n"
proof -
  have "mset (net_inflight (net_after c eff d' n)) + image_mset fst (mset (net_answers (net_after c eff d' n))) =
      mset (settled eff) + (mset (net_inflight n) + image_mset fst (mset (net_answers n)))"
    by (simp add: net_after_def answer_def settled_def split: effect.splits)
  with queued_after_turn [OF assms] show ?thesis by (simp add: ledger_def pending_def ac_simps)
qed

lemma ledger_sender_for_insert:
  assumes "sender_for_insert task_ops t conns n = (c, conns', n')"
  shows "ledger n' = ledger n \<and> net_next_rx n' = net_next_rx n"
proof (cases "open_sender task_ops conns t n")
  case None
  let ?n = "n\<lparr>net_chans := net_chans n @ [None]\<rparr>"
  have "ledger (put_chan (length (net_chans n)) (Some (new_dispatcher t)) ?n) = ledger n"
    using ledger_put [of "length (net_chans n)" ?n "Some (new_dispatcher t)"]
    by (simp add: chan_at_def owed_def new_dispatcher_def messages_def ledger_def)
  with None assms show ?thesis by (auto simp: sender_for_insert_def task_ops_def)
qed (use assms in \<open>auto simp: sender_for_insert_def\<close>)

lemma ledger_send:
  assumes "chan_send task_ops c req n = (r, n')"
  shows "ledger n' = ledger n + mset [net_next_rx n..<net_next_rx n'] \<and> net_next_rx n \<le> net_next_rx n'"
proof (cases "chan_at n c")
  case (Some d)
  let ?d = "d\<lparr>d_queue := d_queue d @ [(req, net_next_rx n)]\<rparr>"
  have "ledger (put_chan c (Some ?d) n) = add_mset (net_next_rx n) (ledger n)"
    using ledger_put [of c n "Some ?d"] chan_at_SomeD [OF Some] Some
    by (simp add: owed_def messages_def)
  with Some assms show ?thesis by (auto simp: task_ops_def ledger_def)
qed (use assms in \<open>auto simp: task_ops_def\<close>)


lemma ledger_request_turn:
  assumes "request_turn db req st (d, conns, n) = Some (st', d', conns', n')"
  shows "ledger n' = ledger n + mset [net_next_rx n..<net_next_rx n'] \<and> net_next_rx n \<le> net_next_rx n'"
proof (cases st)
  case (Inserting t)
  with assms ledger_sender_for_insert [of t conns n] show ?thesis
    by (auto simp: request_turn_def split: prod.splits)
next
  case (Sending t c)
  with assms ledger_send [of c req n] show ?thesis
    by (auto simp: request_turn_def split: prod.splits option.splits)
next
  case (Awaiting c rx)
  with assms show ?thesis
    by (auto simp: request_turn_def task_ops_def split: if_splits option.splits)
qed (use assms in \<open>auto simp: request_turn_def split: Result.splits option.splits prod.splits\<close>)

lemma ledger_dies:
  "\<exists>lost. ledger (put_chan c None n) + lost = ledger n"
proof (cases "c < length (net_chans n)")
  case True
  from ledger_put [OF this, of None] show ?thesis by (auto simp: owed_def)
qed simp

lemma ledger_inflight:
  "rx \<in> set (net_inflight n) \<Longrightarrow>
   ledger (n\<lparr>net_inflight := remove1 rx (net_inflight n)\<rparr>) + {#rx#} = ledger n"
  by (simp add: ledger_def pending_def)

text \<open>A step adds exactly the answers of the messages it accepts, and loses some only when a task
  dies.\<close>

lemma ledger_step:
  assumes "sys_step db rows h2 s e s'" and "\<And>c. e \<noteq> Dispatches c Panics"
  shows "\<exists>lost. ledger (sys_net s') + lost =
      ledger (sys_net s) + mset [net_next_rx (sys_net s)..<net_next_rx (sys_net s')] \<and>
      net_next_rx (sys_net s) \<le> net_next_rx (sys_net s') \<and> (no_death e \<longrightarrow> lost = {#})"
  using assms(1)
proof (cases rule: sys_step.cases)
  case (runs i req st st' d conns n)
  with ledger_request_turn [OF runs(5)] show ?thesis by simp
next
  case (dispatches c d eff d' w)
  moreover have "net_next_rx (net_after c eff d' (sys_net s)) = net_next_rx (sys_net s)"
    by (cases eff) (simp_all add: net_after_def answer_def)
  ultimately show ?thesis
    using ledger_after_turn [OF dispatches(3,4)] assms(2) by (auto simp: after_turn_def)
next
  case (responds rx res)
  with ledger_inflight [OF responds(3)] show ?thesis by (simp add: answer_def ledger_def)
next
  case (dies c)
  with ledger_dies [of c "sys_net s"] show ?thesis by simp
next
  case (dies_responding rx)
  then show ?thesis
    using ledger_inflight [of rx "sys_net s"]
    by (cases "rx \<in> set (net_inflight (sys_net s))") (auto simp: remove1_idem intro!: exI [of _ "{#rx#}"])
qed auto

subsection \<open>The invariant of all interleavings\<close>

abbreviation task_tokens :: "'snd net \<Rightarrow> nat \<Rightarrow> string option" where
  "task_tokens n c \<equiv> map_option d_token (chan_at n c)"

definition request_ok :: "string set \<Rightarrow> 'snd net \<Rightarrow> Request \<times> request_state \<Rightarrow> bool" where
  "request_ok known n = (\<lambda>(req, st).
     (case st of
        Looking t \<Rightarrow> extract_bearer_token (req_headers req) = Ok t
      | Inserting t \<Rightarrow> extract_bearer_token (req_headers req) = Ok t \<and> t \<in> known
      | Sending t c \<Rightarrow> extract_bearer_token (req_headers req) = Ok t \<and> c < length (net_chans n) \<and>
          (chan_at n c = None \<or> task_tokens n c = Some t)
      | Awaiting c rx \<Rightarrow> c < length (net_chans n) \<and> rx < net_next_rx n
      | Completed r \<Rightarrow> r \<noteq> Err InvalidAuthorizationToken
      | _ \<Rightarrow> True))"

definition sys_inv ::
  "('d \<Rightarrow> Model list) \<Rightarrow> ('snd, 'n) h2_ops \<Rightarrow> ('d, 'snd, 'n) sys \<Rightarrow> bool" where
  "sys_inv rows h2 s \<longleftrightarrow>
     cache_inv (task_tokens (sys_net s)) {..<length (net_chans (sys_net s))} (sys_cache s) \<and>
     (\<forall>t c. hm_get (sys_cache s) t = Some c \<longrightarrow> t \<in> sys_known s) \<and>
     (\<forall>c d. chan_at (sys_net s) c = Some d \<longrightarrow> disp_ok h2 (sys_registered s) d) \<and>
     list_all (request_ok (sys_known s) (sys_net s)) (sys_tasks s) \<and>
     list_all (\<lambda>(rx, r). \<forall>e. r = Err e \<longrightarrow> ordinary e) (net_answers (sys_net s)) \<and>
     recorded (rows (sys_db s)) \<subseteq> sys_registered s \<and>
     app_token ` set (rows (sys_db s)) \<subseteq> sys_known s \<and>
     list_all (\<lambda>(rx, req, a). \<exists>t. extract_bearer_token (req_headers req) = Ok t \<and> (t, a) \<in> sys_registered s)
       (sys_sent s)"


text \<open>How the channels change: none disappears, and a dispatcher keeps its token until it ends.\<close>

definition evolves :: "'snd net \<Rightarrow> 'snd net \<Rightarrow> bool" where
  "evolves n n' \<longleftrightarrow> length (net_chans n) \<le> length (net_chans n') \<and> net_next_rx n \<le> net_next_rx n' \<and>
     (\<forall>c < length (net_chans n). chan_at n' c = None \<or> task_tokens n' c = task_tokens n c)"

lemma evolves_refl [simp]: "evolves n n"
  by (simp add: evolves_def)

lemma evolves_put:
  "(\<And>d'. d = Some d' \<Longrightarrow> task_tokens n c = Some (d_token d')) \<Longrightarrow> evolves n (put_chan c d n)"
  by (cases d) (auto simp: evolves_def)

lemma evolves_fields [simp]:
  "evolves n (n'\<lparr>net_answers := as\<rparr>) = evolves n n'"
  "evolves n (n'\<lparr>net_inflight := rxs\<rparr>) = evolves n n'"
  by (simp_all add: evolves_def chan_at_def)

lemma evolves_send:
  assumes "chan_send task_ops c req n = (r, n')"
  shows "evolves n n'"
proof (cases "chan_at n c")
  case (Some d)
  have "evolves n (put_chan c (Some (d\<lparr>d_queue := d_queue d @ [(req, net_next_rx n)]\<rparr>)) n)"
    by (rule evolves_put) (simp add: Some)
  with Some assms show ?thesis by (auto simp: task_ops_def evolves_def chan_at_def)
qed (use assms in \<open>auto simp: task_ops_def\<close>)

lemma evolves_insert:
  assumes "sender_for_insert task_ops t conns n = (c, conns', n')"
  shows "evolves n n'" and "c' < length (net_chans n) \<Longrightarrow> chan_at n' c' = chan_at n c'"
    and "length (net_chans n) \<le> c' \<Longrightarrow> chan_at n' c' = Some d \<Longrightarrow> d = new_dispatcher t"
    and "net_answers n' = net_answers n"
  using assms
  by (auto simp: sender_for_insert_def task_ops_def evolves_def chan_at_def put_chan_def nth_append
      nth_list_update less_Suc_eq split: option.splits if_splits)

lemma request_ok_mono:
  "evolves n n' \<Longrightarrow> known \<subseteq> known' \<Longrightarrow> request_ok known n r \<Longrightarrow> request_ok known' n' r"
  by (cases r) (fastforce simp: request_ok_def evolves_def split: request_state.splits)

lemma requests_ok_mono:
  "evolves n n' \<Longrightarrow> known \<subseteq> known' \<Longrightarrow> list_all (request_ok known n) rs \<Longrightarrow>
   list_all (request_ok known' n') rs"
  using request_ok_mono by (metis (mono_tags) list_all_iff)

lemma cache_inv_mono:
  assumes "evolves n n'" and "cache_inv (task_tokens n) {..<length (net_chans n)} conns"
  shows "cache_inv (task_tokens n') {..<length (net_chans n')} conns"
  unfolding cache_inv_def
proof (intro allI impI)
  fix t c
  assume "hm_get conns t = Some c"
  with assms(2) have c: "c < length (net_chans n)" "task_tokens n c = None \<or> task_tokens n c = Some t"
    by (auto simp: cache_inv_def)
  with assms(1) have "c < length (net_chans n')" "chan_at n' c = None \<or> task_tokens n' c = task_tokens n c"
    by (auto simp: evolves_def)
  with c(2) show "c \<in> {..<length (net_chans n')} \<and> (task_tokens n' c = None \<or> task_tokens n' c = Some t)"
    by auto
qed

lemma disp_ok_mono: "disp_ok h2 reg d \<Longrightarrow> reg \<subseteq> reg' \<Longrightarrow> disp_ok h2 reg' d"
  by (auto simp: disp_ok_def split: dispatch_phase.splits)

lemma disp_ok_new [simp]: "disp_ok h2 reg (new_dispatcher t)"
  by (simp add: disp_ok_def new_dispatcher_def messages_def)


lemma disp_ok_send:
  assumes "chan_send task_ops c req n = (Some rx, n')" and "chan_at n' c' = Some d'"
    and "\<And>c d. chan_at n c = Some d \<Longrightarrow> disp_ok h2 reg d"
    and "extract_bearer_token (req_headers req) = Ok t" and "task_tokens n c = Some t \<or> chan_at n c = None"
  shows "disp_ok h2 reg d'"
proof -
  obtain d where d: "chan_at n c = Some d" using assms(1) by (auto simp: task_ops_def split: option.splits)
  have "c' = c \<Longrightarrow> d' = d\<lparr>d_queue := d_queue d @ [(req, net_next_rx n)]\<rparr>" "c' \<noteq> c \<Longrightarrow> chan_at n c' = Some d'"
    using assms(1,2) d chan_at_SomeD [OF d]
    by (auto simp: task_ops_def chan_at_def put_chan_def split: if_splits)
  with assms(3) [of c d] assms(3) [of c' d'] assms(4,5) d show ?thesis
    by (cases "c' = c") (auto simp: disp_ok_def messages_def split: dispatch_phase.splits)
qed

context app_store
begin

lemma request_turn_db:
  assumes "request_turn db req st (d, conns, n) = Some (st', d', conns', n')"
  shows "rows d' = rows d"
  using assms
  by (cases st) (auto simp: request_turn_def dest: one_rows
      split: Result.splits option.splits prod.splits if_splits)

text \<open>A turn of a request task keeps everything in order.\<close>

lemma request_turn_ok:
  assumes turn: "request_turn db req st (d, conns, n) = Some (st', d', conns', n')"
    and cache: "cache_inv (task_tokens n) {..<length (net_chans n)} conns"
    and keys: "\<And>t c. hm_get conns t = Some c \<Longrightarrow> t \<in> known"
    and disp: "\<And>c d. chan_at n c = Some d \<Longrightarrow> disp_ok h2 reg d"
    and req: "request_ok known n (req, st)"
    and answers: "list_all (\<lambda>(rx, r). \<forall>e. r = Err e \<longrightarrow> ordinary e) (net_answers n)"
    and tokens: "app_token ` set (rows d) \<subseteq> known"
  shows "evolves n n' \<and> cache_inv (task_tokens n') {..<length (net_chans n')} conns' \<and>
    (\<forall>t c. hm_get conns' t = Some c \<longrightarrow> t \<in> known) \<and>
    (\<forall>c d. chan_at n' c = Some d \<longrightarrow> disp_ok h2 reg d) \<and> request_ok known n' (req, st') \<and>
    net_answers n' = net_answers n"
proof (cases st)
  case Received
  have "c < length (net_chans n) \<and> task_tokens n c = Some t"
    if "open_sender task_ops conns t n = Some c" for t c
    using tasks.open_sender_Some [OF cache that] by (auto dest: chan_at_SomeD)
  with Received turn cache keys disp extract_ordinary show ?thesis
    by (auto simp: request_turn_def request_ok_def ordinary_def split: Result.splits option.splits)
next
  case (Looking t)
  obtain q d1 where q: "db_one db (by_token t) d = (q, d1)" by (rule prod.exhaust)
  have "t \<in> known" if "q = Ok (Some m)" for m
    using one_SomeD [OF q [unfolded that]] tokens by (auto simp: by_token_def)
  with turn Looking q req cache keys disp show ?thesis
    by (auto simp: request_turn_def request_ok_def split: Result.splits option.splits)
next
  case (Inserting t)
  obtain c conns1 n1 where i: "sender_for_insert task_ops t conns n = (c, conns1, n1)" by (metis prod_cases3)
  have eqs: "st' = Sending t c" "conns' = conns1" "n' = n1"
    using turn Inserting i by (auto simp: request_turn_def)
  note live = tasks.sender_for_insert_live [OF cache i]
  have "disp_ok h2 reg d" if "chan_at n1 c' = Some d" for c' d
    using evolves_insert(2,3) [OF i, of c'] that disp by (cases "c' < length (net_chans n)") auto
  moreover have "t' \<in> known" if "hm_get conns1 t' = Some c'" for t' c'
    using live(4) [of t'] that keys [of t' c'] req Inserting by (cases "t' = t") (auto simp: request_ok_def)
  ultimately show ?thesis
    using req Inserting live(1,2) evolves_insert(1,4) [OF i]
    by (auto simp: eqs request_ok_def dest: chan_at_SomeD)
next
  case (Sending t c)
  obtain r n1 where s: "chan_send task_ops c req n = (r, n1)" by (rule prod.exhaust)
  have ev: "evolves n n1" by (rule evolves_send [OF s])
  show ?thesis
  proof (cases r)
    case None
    then have "n1 = n" using s by (auto simp: task_ops_def split: option.splits)
    moreover have "hm_get (remove_closed task_ops t conns n) t' = Some c' \<Longrightarrow> hm_get conns t' = Some c'" for t' c'
      by (auto simp: remove_closed_def hm_simps split: option.splits if_splits)
    ultimately show ?thesis
      using turn Sending s None tasks.cache_inv_remove_closed [OF cache] keys disp
      by (auto simp: request_turn_def request_ok_def)
  next
    case (Some rx)
    have ok: "disp_ok h2 reg d" if "chan_at n1 c' = Some d" for c' d
      by (rule disp_ok_send [OF s [unfolded Some] that disp]) (use req Sending in \<open>auto simp: request_ok_def\<close>)
    have "rx < net_next_rx n1" "net_answers n1 = net_answers n"
      using s Some by (auto simp: task_ops_def split: option.splits)
    with turn Sending s Some cache_inv_mono [OF ev cache] keys ok ev req show ?thesis
      by (auto simp: request_turn_def request_ok_def evolves_def)
  qed
next
  case (Awaiting c rx)
  have "hm_get (net_answers n) rx \<noteq> Some (Err InvalidAuthorizationToken)"
    using answers by (auto simp: hm_get_def list_all_iff ordinary_def dest!: map_of_SomeD)
  with turn Awaiting cache keys disp show ?thesis
    by (auto simp: request_turn_def request_ok_def task_ops_def split: if_splits option.splits)
qed (use turn in \<open>auto simp: request_turn_def\<close>)

end


lemma step_recorded:
  assumes "step ms c ms'"
  shows "recorded ms' \<subseteq> recorded ms \<union> registered_addresses c"
    and "app_token ` set ms' \<subseteq> app_token ` set ms \<union> created_tokens c"
proof -
  have upd: "recorded (update_rows as cs ms) \<subseteq> recorded ms \<union> registered_addresses c"
    if "stmt_update c = Some (as, cs)" for as cs
  proof -
    have addr: "app_address (set_cols as m) = app_address m \<or> app_address (set_cols as m) = None \<or>
        (\<exists>t params. c = Register t params \<and> app_address (set_cols as m) = Some (acr_address params) \<and>
           cs = by_token t)" for m
      using that by (cases c) (auto simp: finished_assigns_def running_assigns_def failed_assigns_def
          check_failed_assigns_def)
    have tok: "app_token (set_cols as m) = app_token m" for m
      using identity_eqD [OF identity_set_cols [OF keeps_identity_stmt [OF that]]] by simp
    have "(t, a) \<in> recorded ms \<union> registered_addresses c"
      if "m \<in> set ms" "holds_all cs m" "t = app_token (set_cols as m)" "app_address (set_cols as m) = Some a"
      for m t a
      using that addr [of m] tok [of m] by (auto simp: recorded_iff by_token_def)
    then show ?thesis by (fastforce simp: recorded_iff set_update_rows)
  qed
  from assms show "recorded ms' \<subseteq> recorded ms \<union> registered_addresses c"
    by (cases rule: step.cases) (use upd in \<open>auto simp: recorded_iff delete_rows_def\<close>)
  from assms show "app_token ` set ms' \<subseteq> app_token ` set ms \<union> created_tokens c"
    by (cases rule: step.cases)
      (auto simp: delete_rows_def update_rows_tokens [OF keeps_identity_stmt] simp del: set_update_rows)
qed

lemma sys_inv_init: "sys_inv rows h2 (sys_init rows d n)"
  by (simp add: sys_inv_def sys_init_def cache_inv_def hm_simps chan_at_def)

context app_store
begin

lemma sys_inv_dispatch:
  assumes inv: "sys_inv rows h2 s" and c: "chan_at (sys_net s) c = Some d"
    and turn: "dispatcher_turn db h2 closed d (sys_db s, sys_h2 s) = Some (eff, d', w)"
  shows "sys_inv rows h2 (after_turn c eff d' w s)"
proof -
  let ?n = "sys_net s" and ?n' = "net_after c eff d' (sys_net s)"
  note len = conjunct1 [OF chan_at_SomeD [OF c]]
  have d: "disp_ok h2 (sys_registered s) d" and reg: "recorded (rows (fst (sys_db s, sys_h2 s))) \<subseteq> sys_registered s"
    using inv c by (auto simp: sys_inv_def)
  note ok = dispatcher_turn_ok [OF d reg turn] and rows = dispatcher_turn_db [OF turn]
  have ev: "evolves ?n ?n'"
    using dispatcher_turn_token [OF turn] c evolves_put [of "remains eff d'" ?n c]
    by (auto simp: net_after_def answer_def remains_def split: effect.splits if_splits)
  have chans: "disp_ok h2 (sys_registered s) d1" if "chan_at ?n' c1 = Some d1" for c1 d1
    using that inv ok(1) len
    by (auto simp: net_after_def answer_def remains_def sys_inv_def split: effect.splits if_splits)
  have answers: "list_all (\<lambda>(rx, r). \<forall>e. r = Err e \<longrightarrow> ordinary e) (net_answers ?n')"
    using inv ok(3) by (auto simp: sys_inv_def net_after_def answer_def split: effect.splits)
  show ?thesis
    using inv ok(4) rows chans answers cache_inv_mono [OF ev] requests_ok_mono [OF ev subset_refl]
    by (auto simp: sys_inv_def after_turn_def split: effect.splits)
qed

lemma sys_inv_step:
  assumes step: "sys_step db rows h2 s e s'" and inv: "sys_inv rows h2 s"
  shows "sys_inv rows h2 s'"
  using step
proof (cases rule: sys_step.cases)
  case (runs i req st st' d conns n)
  have req: "request_ok (sys_known s) (sys_net s) (req, st)"
    using inv runs(3,4) by (metis list_all_length sys_inv_def)
  have ok: "evolves (sys_net s) n \<and> cache_inv (task_tokens n) {..<length (net_chans n)} conns \<and>
      (\<forall>t c. hm_get conns t = Some c \<longrightarrow> t \<in> sys_known s) \<and>
      (\<forall>c d. chan_at n c = Some d \<longrightarrow> disp_ok h2 (sys_registered s) d) \<and>
      request_ok (sys_known s) n (req, st') \<and> net_answers n = net_answers (sys_net s)"
    by (rule request_turn_ok [OF runs(5) _ _ _ req]) (use inv in \<open>auto simp: sys_inv_def\<close>)
  have "list_all (request_ok (sys_known s) n) (sys_tasks s)"
    using requests_ok_mono [of "sys_net s" n] ok inv by (auto simp: sys_inv_def)
  then have "list_all (request_ok (sys_known s) n) ((sys_tasks s)[i := (req, st')])"
    using ok by (auto simp: list_all_iff dest!: set_update_subset_insert [THEN subsetD])
  with inv ok request_turn_db [OF runs(5)] runs(2) show ?thesis by (simp add: sys_inv_def)
next
  case (gives_up i req st)
  have "list_all (request_ok (sys_known s) (sys_net s)) ((sys_tasks s)[i := (req, Dropped)])"
    using inv by (auto simp: sys_inv_def list_all_iff request_ok_def
        dest!: set_update_subset_insert [THEN subsetD])
  with inv gives_up show ?thesis by (simp add: sys_inv_def)
next
  case (dispatches c d eff d' w)
  with sys_inv_dispatch [OF inv dispatches(3,4)] show ?thesis by simp
next
  case (responds rx res)
  let ?n = "answer rx res ((sys_net s)\<lparr>net_inflight := remove1 rx (net_inflight (sys_net s))\<rparr>)"
  have ev: "evolves (sys_net s) ?n" by (simp add: answer_def)
  have "list_all (\<lambda>(rx, r). \<forall>e. r = Err e \<longrightarrow> ordinary e) (net_answers ?n)"
    using inv responds(4) by (auto simp: sys_inv_def answer_def ordinary_def)
  with responds(2) inv cache_inv_mono [OF ev] requests_ok_mono [OF ev subset_refl] show ?thesis
    by (auto simp: sys_inv_def answer_def)
next
  case (dies c)
  have ev: "evolves (sys_net s) (put_chan c None (sys_net s))" by (rule evolves_put) simp
  with dies inv cache_inv_mono [OF ev] requests_ok_mono [OF ev subset_refl] show ?thesis
    by (auto simp: sys_inv_def split: if_splits)
next
  case (dies_responding rx)
  let ?n = "(sys_net s)\<lparr>net_inflight := remove1 rx (net_inflight (sys_net s))\<rparr>"
  have ev: "evolves (sys_net s) ?n" by simp
  with dies_responding inv cache_inv_mono [OF ev] requests_ok_mono [OF ev subset_refl] show ?thesis
    by (auto simp: sys_inv_def)
next
  case (writes c d)
  have "app_token ` set (rows (sys_db s)) \<subseteq> sys_known s" "recorded (rows (sys_db s)) \<subseteq> sys_registered s"
    using inv by (simp_all add: sys_inv_def)
  then have "app_token ` set (rows d) \<subseteq> sys_known s \<union> created_tokens c"
    "recorded (rows d) \<subseteq> sys_registered s \<union> registered_addresses c"
    using step_recorded [OF writes(3)] by blast+
  moreover have "list_all (request_ok (sys_known s \<union> created_tokens c) (sys_net s)) (sys_tasks s)"
    by (rule requests_ok_mono [OF evolves_refl Un_upper1]) (use inv in \<open>simp add: sys_inv_def\<close>)
  moreover have "disp_ok h2 (sys_registered s \<union> registered_addresses c) d'"
    if "chan_at (sys_net s) c' = Some d'" for c' d'
    by (rule disp_ok_mono [OF _ Un_upper1]) (use inv that in \<open>simp add: sys_inv_def\<close>)
  moreover have "list_all (\<lambda>(rx, req, a). \<exists>t. extract_bearer_token (req_headers req) = Ok t \<and>
      (t, a) \<in> sys_registered s \<union> registered_addresses c) (sys_sent s)"
    by (rule list.pred_mono_strong [of "\<lambda>(rx, req, a). \<exists>t. extract_bearer_token (req_headers req) = Ok t \<and>
      (t, a) \<in> sys_registered s"]) (use inv in \<open>auto simp: sys_inv_def\<close>)
  ultimately show ?thesis using inv writes(2) by (simp add: sys_inv_def)
next
  case (invalidates t)
  then show ?thesis
    using inv tasks.cache_inv_invalidate by (auto simp: sys_inv_def invalidate_def hm_simps)
qed (use inv in \<open>auto simp: sys_inv_def request_ok_def\<close>)

lemma sys_inv_run: "sys_run db rows h2 s es s' \<Longrightarrow> sys_inv rows h2 s \<Longrightarrow> sys_inv rows h2 s'"
  by (induction rule: sys_run.induct) (auto intro: sys_inv_step)

end


subsection \<open>Runs in which no task dies\<close>

text \<open>Every sender in the cache or with a request belongs to a running dispatcher.\<close>

definition senders_alive :: "('d, 'snd, 'n) sys \<Rightarrow> bool" where
  "senders_alive s \<longleftrightarrow>
     (\<forall>t c. hm_get (sys_cache s) t = Some c \<longrightarrow> chan_at (sys_net s) c \<noteq> None) \<and>
     list_all (\<lambda>(req, st). \<forall>c. holds_sender c st \<longrightarrow> chan_at (sys_net s) c \<noteq> None) (sys_tasks s) \<and>
     list_all (\<lambda>(req, st). \<forall>m. st \<noteq> Completed (Err (Internal m))) (sys_tasks s)"

lemma request_turn_alive:
  assumes turn: "request_turn db req st (d, conns, n) = Some (st', d', conns', n')"
    and cache: "cache_inv (task_tokens n) {..<length (net_chans n)} conns"
    and alive: "\<And>t c. hm_get conns t = Some c \<Longrightarrow> chan_at n c \<noteq> None"
    and held: "\<And>c. holds_sender c st \<Longrightarrow> chan_at n c \<noteq> None"
    and answers: "list_all (\<lambda>(rx, r). \<forall>e. r = Err e \<longrightarrow> ordinary e) (net_answers n)"
    and owed: "\<And>c rx. st = Awaiting c rx \<Longrightarrow> rx \<in># ledger n"
  shows "(\<forall>c. chan_at n c \<noteq> None \<longrightarrow> chan_at n' c \<noteq> None) \<and>
    (\<forall>t c. hm_get conns' t = Some c \<longrightarrow> chan_at n' c \<noteq> None) \<and>
    (\<forall>c. holds_sender c st' \<longrightarrow> chan_at n' c \<noteq> None) \<and> (\<forall>m. st' \<noteq> Completed (Err (Internal m)))"
proof (cases st)
  case Received
  with turn show ?thesis
    using alive extract_ordinary tasks.open_sender_Some [OF cache]
    by (fastforce simp: request_turn_def ordinary_def split: Result.splits option.splits)
next
  case (Inserting t)
  obtain c conns1 n1 where i: "sender_for_insert task_ops t conns n = (c, conns1, n1)" by (metis prod_cases3)
  have eqs: "st' = Sending t c" "conns' = conns1" "n' = n1"
    using turn Inserting i by (auto simp: request_turn_def)
  note live = tasks.sender_for_insert_live [OF cache i]
  have keep: "chan_at n1 c' \<noteq> None" if "chan_at n c' \<noteq> None" for c'
    using evolves_insert(2) [OF i, of c'] that by (auto simp: chan_at_def split: if_splits)
  have "chan_at n1 c' \<noteq> None" if "hm_get conns1 t' = Some c'" for t' c'
    using live(1,3) live(4) [of t'] that keep [of c'] alive [of t' c'] by (cases "t' = t") auto
  with keep live(1) show ?thesis by (auto simp: eqs)
next
  case (Sending t c)
  then obtain d1 where "chan_at n c = Some d1" using held by auto
  with turn Sending alive show ?thesis by (auto simp: request_turn_def task_ops_def)
next
  case (Awaiting c rx)
  then have "rx \<in> set (pending n) \<or> (\<exists>r. hm_get (net_answers n) rx = Some r)"
    using owed by (auto simp: ledger_def hm_get_def map_of_eq_None_iff [symmetric] image_iff) (metis map_of_eq_None_iff not_None_eq imageI fst_conv)
  moreover have "hm_get (net_answers n) rx \<noteq> Some (Err (Internal m))" for m
    using answers by (auto simp: hm_get_def list_all_iff ordinary_def dest!: map_of_SomeD)
  ultimately show ?thesis using turn Awaiting alive
    by (auto simp: request_turn_def task_ops_def split: if_splits)
qed (use turn alive in \<open>auto simp: request_turn_def split: Result.splits option.splits prod.splits\<close>)


lemma senders_alive_frame:
  assumes "senders_alive s" and "sys_cache s' = sys_cache s" and "sys_tasks s' = sys_tasks s"
    and "\<And>c. \<not> no_sender c s \<Longrightarrow> chan_at (sys_net s) c \<noteq> None \<Longrightarrow> chan_at (sys_net s') c \<noteq> None"
  shows "senders_alive s'"
proof -
  have "\<not> no_sender c s" if "hm_get (sys_cache s) t = Some c" for t c
    using that by (force simp: no_sender_def hm_get_def dest: map_of_SomeD)
  moreover have "\<not> no_sender c s" if "(req, st) \<in> set (sys_tasks s)" "holds_sender c st" for req st c
    using that by (auto simp: no_sender_def list_all_iff)
  ultimately show ?thesis
    using assms by (fastforce simp: senders_alive_def list_all_iff)
qed

context app_store
begin

lemma senders_alive_dispatch:
  assumes inv: "sys_inv rows h2 s" and alive: "senders_alive s" and c: "chan_at (sys_net s) c = Some d"
    and turn: "dispatcher_turn db h2 (\<lambda>_. no_sender c s) d (sys_db s, sys_h2 s) = Some (eff, d', w)"
  shows "senders_alive (after_turn c eff d' w s)"
proof -
  have "eff \<noteq> Panics"
    by (rule dispatcher_turn_ok(2) [OF _ _ turn]) (use inv c in \<open>auto simp: sys_inv_def\<close>)
  moreover have "no_sender c s" if "eff = Ends"
    using that turn by (auto simp: dispatcher_turn_def Let_def split: turn_splits)
  ultimately have "chan_at (net_after c eff d' (sys_net s)) c' \<noteq> None"
    if "\<not> no_sender c' s" "chan_at (sys_net s) c' \<noteq> None" for c'
    using that c by (auto simp: net_after_def answer_def remains_def split: effect.splits)
  with alive show ?thesis by (intro senders_alive_frame [OF alive]) (auto simp: after_turn_def)
qed

lemma senders_alive_step:
  assumes step: "sys_step db rows h2 s e s'" and inv: "sys_inv rows h2 s" and alive: "senders_alive s"
    and nd: "no_death e" and books: "ledger (sys_net s) = mset [0..<net_next_rx (sys_net s)]"
  shows "senders_alive s'"
  using step
proof (cases rule: sys_step.cases)
  case (runs i req st st' d conns n)
  have mem: "(req, st) \<in> set (sys_tasks s)" using runs(3,4) by (metis nth_mem)
  then have req: "request_ok (sys_known s) (sys_net s) (req, st)" using inv by (auto simp: sys_inv_def list_all_iff)
  have ok: "(\<forall>c. chan_at (sys_net s) c \<noteq> None \<longrightarrow> chan_at n c \<noteq> None) \<and>
    (\<forall>t c. hm_get conns t = Some c \<longrightarrow> chan_at n c \<noteq> None) \<and>
    (\<forall>c. holds_sender c st' \<longrightarrow> chan_at n c \<noteq> None) \<and> (\<forall>m. st' \<noteq> Completed (Err (Internal m)))"
  proof (rule request_turn_alive [OF runs(5)])
    show "chan_at (sys_net s) c \<noteq> None" if "holds_sender c st" for c
      using alive mem that by (auto simp: senders_alive_def list_all_iff)
    show "rx \<in># ledger (sys_net s)" if "st = Awaiting c rx" for c rx
      using req that by (simp add: request_ok_def books)
  qed (use inv alive in \<open>auto simp: sys_inv_def senders_alive_def\<close>)
  have "list_all (\<lambda>(req, st). \<forall>c. holds_sender c st \<longrightarrow> chan_at n c \<noteq> None) (sys_tasks s)"
    using alive ok by (fastforce simp: senders_alive_def list_all_iff)
  with ok alive runs(2) show ?thesis
    by (auto simp: senders_alive_def intro: list_all_update)
next
  case (dispatches c d eff d' w)
  with senders_alive_dispatch [OF inv alive dispatches(3,4)] show ?thesis by simp
next
  case (invalidates t)
  then show ?thesis using alive by (auto simp: senders_alive_def invalidate_def hm_simps)
next
  case (gives_up i req st)
  then show ?thesis using alive by (auto simp: senders_alive_def intro!: list_all_update)
qed (use alive nd in \<open>auto simp: senders_alive_def answer_def\<close>)

lemma never_panics:
  assumes inv: "sys_inv rows h2 s" and step: "sys_step db rows h2 s (Dispatches c eff) s'"
  shows "eff \<noteq> Panics \<and> eff \<noteq> Replies rx InvalidAuthorizationToken"
proof -
  from step obtain d d' w where c: "chan_at (sys_net s) c = Some d"
    and t: "dispatcher_turn db h2 (\<lambda>_. no_sender c s) d (sys_db s, sys_h2 s) = Some (eff, d', w)"
    by (auto elim: sys_step.cases)
  have ok: "disp_ok h2 (sys_registered s) d" "recorded (rows (fst (sys_db s, sys_h2 s))) \<subseteq> sys_registered s"
    using inv c by (auto simp: sys_inv_def)
  from dispatcher_turn_ok(2,3) [OF ok t] show ?thesis by (auto simp: ordinary_def)
qed

lemma books_step:
  assumes inv: "sys_inv rows h2 s" and step: "sys_step db rows h2 s e s'"
    and books: "ledger (sys_net s) + lost = mset [0..<net_next_rx (sys_net s)]"
  shows "\<exists>lost'. ledger (sys_net s') + (lost + lost') = mset [0..<net_next_rx (sys_net s')] \<and>
           (no_death e \<longrightarrow> lost' = {#})"
proof -
  let ?k = "net_next_rx (sys_net s)" and ?k' = "net_next_rx (sys_net s')"
  have "e \<noteq> Dispatches c Panics" for c using never_panics [OF inv] step by blast
  from ledger_step [OF step this] obtain lost' where l:
    "ledger (sys_net s') + lost' = ledger (sys_net s) + mset [?k..<?k']" "?k \<le> ?k'"
    "no_death e \<longrightarrow> lost' = {#}" by blast
  have "ledger (sys_net s') + (lost + lost') = (ledger (sys_net s) + lost) + mset [?k..<?k']"
    using l(1) by (simp add: ac_simps)
  also have "\<dots> = mset [0..<?k']"
    using books l(2) by (metis le0 mset_append upt_add_eq_append le_add_diff_inverse)
  finally show ?thesis using l(3) by blast
qed

text \<open>What holds after every run from the start.\<close>

lemma run_facts:
  assumes "sys_run db rows h2 (sys_init rows d n) es s"
  shows "sys_inv rows h2 s"
    and "\<exists>lost. ledger (sys_net s) + lost = mset [0..<net_next_rx (sys_net s)] \<and>
           (list_all no_death es \<longrightarrow> lost = {#} \<and> senders_alive s)"
proof -
  have "sys_inv rows h2 s \<and> (\<exists>lost. ledger (sys_net s) + lost = mset [0..<net_next_rx (sys_net s)] \<and>
           (list_all no_death es \<longrightarrow> lost = {#} \<and> senders_alive s))"
    using assms
  proof (induction "sys_init rows d n :: ('d, 'a, 'b) sys" es s rule: sys_run.induct)
    case run_nil
    show ?case
      using sys_inv_init by (auto simp: sys_init_def ledger_def pending_def queued_def senders_alive_def hm_simps)
  next
    case (run_snoc es s' e s'')
    then obtain lost where inv: "sys_inv rows h2 s'"
      and l: "ledger (sys_net s') + lost = mset [0..<net_next_rx (sys_net s')]"
        "list_all no_death es \<longrightarrow> lost = {#} \<and> senders_alive s'" by blast
    obtain lost' where l': "ledger (sys_net s'') + (lost + lost') = mset [0..<net_next_rx (sys_net s'')]"
      "no_death e \<longrightarrow> lost' = {#}" using books_step [OF inv run_snoc(3) l(1)] by blast
    with l sys_inv_step [OF run_snoc(3) inv] senders_alive_step [OF run_snoc(3) inv] show ?case
      by (intro conjI exI [of _ "lost + lost'"]) auto
  qed
  then show "sys_inv rows h2 s"
    and "\<exists>lost. ledger (sys_net s) + lost = mset [0..<net_next_rx (sys_net s)] \<and>
           (list_all no_death es \<longrightarrow> lost = {#} \<and> senders_alive s)" by blast+
qed

lemma run_books:
  assumes "sys_run db rows h2 (sys_init rows d n) es s"
  shows "ledger (sys_net s) \<subseteq># mset [0..<net_next_rx (sys_net s)]"
  using run_facts(2) [OF assms] by (metis mset_subset_eq_add_left)

end

subsection \<open>Requests are sent once\<close>

definition sent_once :: "('d, 'snd, 'n) sys \<Rightarrow> bool" where
  "sent_once s \<longleftrightarrow> (let rxs = map fst (sys_sent s) @ queued (sys_net s)
     in distinct rxs \<and> set rxs \<subseteq> {..<net_next_rx (sys_net s)})"

lemma sub_distinct:
  assumes "mset xs + ms = mset ys" and "distinct ys"
  shows "distinct xs \<and> set xs \<subseteq> set ys"
proof -
  obtain zs where "ms = mset zs" using ex_mset by metis
  with assms(1) have eq: "mset (xs @ zs) = mset ys" by simp
  from mset_eq_imp_distinct_iff [OF eq] mset_eq_setD [OF eq] assms(2) show ?thesis by auto
qed

lemma sent_once_sub:
  assumes "sent_once s" and "net_next_rx (sys_net s') = net_next_rx (sys_net s)"
    and "mset (map fst (sys_sent s')) + mset (queued (sys_net s')) + ms =
         mset (map fst (sys_sent s)) + mset (queued (sys_net s))"
  shows "sent_once s'"
proof -
  have "mset (map fst (sys_sent s') @ queued (sys_net s')) + ms = mset (map fst (sys_sent s) @ queued (sys_net s))"
    using assms(3) by simp
  from sub_distinct [OF this] assms(1) show ?thesis unfolding sent_once_def Let_def assms(2) by blast
qed

lemma queued_request_turn:
  assumes "request_turn db req st (d, conns, n) = Some (st', d', conns', n')"
  shows "mset (queued n') = mset (queued n) + mset [net_next_rx n..<net_next_rx n'] \<and>
    net_next_rx n \<le> net_next_rx n'"
proof -
  have "net_inflight n' = net_inflight n \<and> net_answers n' = net_answers n"
    using assms by (cases st) (auto simp: request_turn_def sender_for_insert_def task_ops_def Let_def
        split: Result.splits option.splits prod.splits if_splits)
  then show ?thesis
    using ledger_request_turn [OF assms] by (simp add: ledger_def pending_def ac_simps)
qed

lemma sent_once_step:
  assumes step: "sys_step db rows h2 s e s'" and once: "sent_once s"
    and np: "\<And>c. e \<noteq> Dispatches c Panics"
  shows "sent_once s'"
  using step
proof (cases rule: sys_step.cases)
  case (runs i req st st' d conns n)
  let ?k = "net_next_rx (sys_net s)" and ?k' = "net_next_rx n"
  let ?new = "map fst (sys_sent s) @ queued (sys_net s) @ [?k..<?k']"
  have k: "?k \<le> ?k'" using queued_request_turn [OF runs(5)] by simp
  have new: "distinct ?new" "set ?new \<subseteq> {..<?k'}"
    using once k by (fastforce simp: sent_once_def Let_def)+
  have eq: "mset (map fst (sys_sent s) @ queued n) + {#} = mset ?new" using queued_request_turn [OF runs(5)] by simp
  from sub_distinct [OF eq new(1)] new(2) have "distinct (map fst (sys_sent s) @ queued n)"
    "set (map fst (sys_sent s) @ queued n) \<subseteq> {..<?k'}" by blast+
  then show ?thesis by (simp add: sent_once_def runs(2))
next
  case (dispatches c d eff d' w)
  let ?n = "net_after c eff d' (sys_net s)"
  have q: "mset (queued (sys_net s)) = mset (settled eff) + mset (queued ?n)"
    using queued_after_turn [OF dispatches(3,4)] np dispatches(1) by blast
  have "\<exists>ms. mset (map fst (sys_sent s')) + ms = mset (map fst (sys_sent s)) + mset (settled eff)"
    by (simp add: dispatches(2) after_turn_def settled_def split: effect.splits)
  then obtain ms where "mset (map fst (sys_sent s')) + ms = mset (map fst (sys_sent s)) + mset (settled eff)" ..
  with q have "mset (map fst (sys_sent s')) + mset (queued (sys_net s')) + ms =
      mset (map fst (sys_sent s)) + mset (queued (sys_net s))"
    by (simp add: dispatches(2) after_turn_def ac_simps)
  moreover have "net_next_rx (sys_net s') = net_next_rx (sys_net s)"
    by (simp add: dispatches(2) after_turn_def net_after_def answer_def split: effect.splits)
  ultimately show ?thesis using sent_once_sub [OF once] by blast
next
  case (dies c)
  have "\<exists>ms. mset (queued (put_chan c None (sys_net s))) + ms = mset (queued (sys_net s))"
    using mset_queued_put [of c "sys_net s" None] by (cases "c < length (net_chans (sys_net s))") (auto simp: owed_def)
  with dies sent_once_sub [OF once, of s'] show ?thesis by auto
qed (use once in \<open>auto simp: sent_once_def answer_def\<close>)

subsection \<open>Work of a dispatcher\<close>

text \<open>The turns a phase may still take, not counting polls, and the turns before a message is answered
  or sent.\<close>

fun rank :: "dispatch_phase \<Rightarrow> nat" where
  "rank Receiving = 0"
| "rank (Resolving m) = 7"
| "rank (Dialing m a k) = 6 - k"
| "rank (Marking m e) = 2"
| "rank (Forwarding m) = 1"

definition ahead :: "nat \<Rightarrow> 'snd dispatcher \<Rightarrow> nat" where
  "ahead rx d = rank (d_phase d) +
     (if rx \<in> snd ` set (in_work (d_phase d)) then 0
      else 8 * Suc (length (takeWhile (\<lambda>m. snd m \<noteq> rx) (d_queue d))))"

fun works :: "nat \<Rightarrow> proxy_event \<Rightarrow> bool" where
  "works c (Dispatches c' eff) = (c' = c \<and> eff \<noteq> Waits)"
| "works c e = False"

lemma length_takeWhile_less: "x \<in> set xs \<Longrightarrow> \<not> P x \<Longrightarrow> length (takeWhile P xs) < length xs"
  by (induction xs) auto

lemma rank_le: "rank p \<le> 7"
  by (cases p) auto

lemma ahead_le:
  assumes "rx \<in> set (owed (Some d))"
  shows "ahead rx d \<le> 8 * length (messages d)"
proof (cases "rx \<in> snd ` set (in_work (d_phase d))")
  case True
  then show ?thesis using rank_le [of "d_phase d"] by (cases "d_phase d") (auto simp: ahead_def messages_def)
next
  case False
  with assms have "rx \<in> snd ` set (d_queue d)" by (auto simp: owed_def messages_def)
  then have "length (takeWhile (\<lambda>m. snd m \<noteq> rx) (d_queue d)) < length (d_queue d)"
    by (auto intro: length_takeWhile_less)
  with False rank_le [of "d_phase d"] show ?thesis
    by (cases "d_phase d") (auto simp: ahead_def messages_def)
qed

lemma ahead_pos:
  "disp_ok h2 reg d \<Longrightarrow> rx \<in> set (owed (Some d)) \<Longrightarrow> 0 < ahead rx d"
  by (cases "d_phase d") (auto simp: ahead_def disp_ok_def MAX_UPSTREAM_CONNECT_RETRIES_def)

lemma dispatcher_turn_progress:
  "messages d \<noteq> [] \<Longrightarrow> dispatcher_turn db h2 closed d s \<noteq> None"
  by (auto simp: dispatcher_turn_def messages_def Let_def split: turn_splits)

lemma dispatcher_turn_waits:
  "dispatcher_turn db h2 closed d s = Some (Waits, d', s') \<Longrightarrow> d' = d"
  by (auto simp: dispatcher_turn_def Let_def split: turn_splits)

lemma dispatcher_turn_ahead:
  assumes ok: "disp_ok h2 reg d" and turn: "dispatcher_turn db h2 closed d s = Some (eff, d', s')" and "eff \<noteq> Waits"
    and rx: "rx \<in> set (owed (Some d))" "rx \<notin> set (settled eff)"
  shows "ahead rx d' < ahead rx d"
proof (cases "d_phase d")
  case Receiving
  with rx(1) obtain req rx1 q where q: "d_queue d = (req, rx1) # q"
    by (cases "d_queue d") (auto simp: owed_def messages_def)
  with Receiving turn rx show ?thesis
    by (auto simp: dispatcher_turn_def Let_def ahead_def settled_def split: Result.splits if_splits)
next
  case (Dialing m a k)
  then have "k \<le> 3" using ok by (simp add: disp_ok_def MAX_UPSTREAM_CONNECT_RETRIES_def)
  with Dialing turn rx show ?thesis
    by (auto simp: dispatcher_turn_def ahead_def settled_def MAX_UPSTREAM_CONNECT_RETRIES_def
        split: Result.splits prod.splits if_splits)
qed (use ok turn rx assms(3) in \<open>auto simp: disp_ok_def dispatcher_turn_def ahead_def settled_def
      split: Result.splits prod.splits if_splits option.splits outcome.splits\<close>)


lemma request_turn_chan:
  assumes "request_turn db req st (d, conns, n) = Some (st', d', conns', n')" and "chan_at n' c = Some e'"
  obtains (same) e q where "chan_at n c = Some e" "e' = e\<lparr>d_queue := d_queue e @ q\<rparr>"
      "snd ` set q \<subseteq> {net_next_rx n..}"
    | (new) t where "e' = new_dispatcher t"
proof (cases st)
  case (Inserting t)
  obtain x conns1 n1 where i: "sender_for_insert task_ops t conns n = (x, conns1, n1)" by (metis prod_cases3)
  then have "n' = n1" using assms(1) Inserting by (simp add: request_turn_def)
  with evolves_insert(2) [OF i, of c] evolves_insert(3) [OF i, of c e'] assms(2) that(1) [of e' "[]"] that(2) show thesis
    by (cases "c < length (net_chans n)") (auto simp: linorder_not_less)
next
  case (Sending t x)
  obtain r n1 where s: "chan_send task_ops x req n = (r, n1)" by (rule prod.exhaust)
  with Sending assms(1) have "n' = n1" by (auto simp: request_turn_def split: option.splits)
  show thesis
  proof (cases "chan_at n x")
    case None
    with s \<open>n' = n1\<close> assms(2) show thesis by (intro that(1) [of e' "[]"]) (auto simp: task_ops_def)
  next
    case (Some e)
    show thesis
    proof (cases "c = x")
      case True
      with s Some \<open>n' = n1\<close> assms(2) chan_at_SomeD [OF Some] show thesis
        by (intro that(1) [of e "[(req, net_next_rx n)]"]) (auto simp: task_ops_def)
    next
      case False
      with s Some \<open>n' = n1\<close> assms(2) show thesis by (intro that(1) [of e' "[]"]) (auto simp: task_ops_def)
    qed
  qed
qed (use assms in \<open>intro that(1) [of e' "[]"]; auto simp: request_turn_def task_ops_def
      split: Result.splits option.splits prod.splits if_splits\<close>)+

text \<open>The dispatcher of a channel after a step was there before, with new messages at the end of its
  queue or after a turn of its own, or it is new.\<close>

lemma step_chan_cases:
  assumes step: "sys_step db rows h2 s e s'" and c: "chan_at (sys_net s') c = Some d'"
  obtains (same) d q where "chan_at (sys_net s) c = Some d" "d' = d\<lparr>d_queue := d_queue d @ q\<rparr>"
      "snd ` set q \<subseteq> {net_next_rx (sys_net s)..}" "\<not> works c e"
    | (turn) d eff w where "chan_at (sys_net s) c = Some d" "e = Dispatches c eff"
      "dispatcher_turn db h2 (\<lambda>_. no_sender c s) d (sys_db s, sys_h2 s) = Some (eff, d', w)"
      "remains eff d' = Some d'"
    | (new) t where "d' = new_dispatcher t" "\<not> works c e"
proof -
  have unchanged: thesis if "chan_at (sys_net s) c = Some d'" "\<not> works c e"
    by (rule same [of d' "[]"]) (use that in auto)
  from step show thesis
  proof (cases rule: sys_step.cases)
    case (runs i req st st' d conns n)
    then have at: "chan_at n c = Some d'" using c by simp
    show thesis
      by (cases rule: request_turn_chan [OF runs(5) at]) (use runs(1) same new in auto)
  next
    case (dispatches c1 d1 eff d2 w)
    have at: "chan_at (net_after c1 eff d2 (sys_net s)) c = (if c = c1 then remains eff d2 else chan_at (sys_net s) c)"
      using chan_at_SomeD [OF dispatches(3)] by (simp add: net_after_def answer_def split: effect.splits)
    show thesis
    proof (cases "c = c1")
      case True
      with at c dispatches have "remains eff d2 = Some d2" "d' = d2"
        by (auto simp: after_turn_def remains_def split: effect.splits)
      with True dispatches show thesis by (intro turn [of d1 eff w]) auto
    qed (use at c dispatches unchanged in \<open>auto simp: after_turn_def\<close>)
  qed (use c unchanged in \<open>auto simp: answer_def split: if_splits\<close>)
qed


context app_store
begin

text \<open>The invariants that every step keeps, whatever the initial state was.\<close>

lemma run_keeps:
  assumes "sys_run db rows h2 s es s'" and "sys_inv rows h2 s" and "sent_once s"
  shows "sys_inv rows h2 s' \<and> sent_once s' \<and> net_next_rx (sys_net s) \<le> net_next_rx (sys_net s')"
  using assms
proof (induction rule: sys_run.induct)
  case (run_snoc s es s' e s'')
  then have inv: "sys_inv rows h2 s'" "sent_once s'" by auto
  have np: "e \<noteq> Dispatches c Panics" for c using never_panics [OF inv(1)] run_snoc(2) by blast
  from ledger_step [OF run_snoc(2) np] run_snoc sys_inv_step [OF run_snoc(2) inv(1)]
    sent_once_step [OF run_snoc(2) inv(2) np]
  show ?case by auto
qed simp

lemma run_sent_once:
  assumes "sys_run db rows h2 (sys_init rows d n) es s"
  shows "sent_once s"
proof -
  have "sent_once (sys_init rows d n)" by (simp add: sent_once_def sys_init_def queued_def)
  from run_keeps [OF assms sys_inv_init this] show ?thesis by simp
qed

lemma distinct_owed:
  assumes "sent_once s" and "chan_at (sys_net s) c = Some d"
  shows "distinct (owed (Some d))"
proof -
  have "mset (owed (Some d)) + mset (queued (put_chan c None (sys_net s))) = mset (queued (sys_net s))"
    using mset_queued_put [of c "sys_net s" None] chan_at_SomeD [OF assms(2)] assms(2)
    by (simp add: owed_def ac_simps)
  from sub_distinct [OF this] assms(1) show ?thesis by (simp add: sent_once_def Let_def)
qed

lemma ahead_step:
  assumes step: "sys_step db rows h2 s e s'" and inv: "sys_inv rows h2 s" and once: "sent_once s"
    and d': "chan_at (sys_net s') c = Some d'" "rx \<in> set (owed (Some d'))" and rx: "rx < net_next_rx (sys_net s)"
  shows "\<exists>d. chan_at (sys_net s) c = Some d \<and> rx \<in> set (owed (Some d)) \<and>
     ahead rx d' + (if works c e then 1 else 0) \<le> ahead rx d"
proof (cases rule: step_chan_cases [OF step d'(1)])
  case (1 d q)
  have "rx \<in> set (owed (Some d))" and "rx \<notin> snd ` set q"
    using d'(2) rx 1(2,3) by (auto simp: owed_def messages_def)
  moreover have "ahead rx d' = ahead rx d"
  proof (cases "rx \<in> snd ` set (in_work (d_phase d))")
    case False
    with \<open>rx \<in> set (owed (Some d))\<close> obtain m where "m \<in> set (d_queue d)" "snd m = rx"
      by (auto simp: owed_def messages_def)
    then have "takeWhile (\<lambda>m. snd m \<noteq> rx) (d_queue d @ q) = takeWhile (\<lambda>m. snd m \<noteq> rx) (d_queue d)"
      by (intro takeWhile_append1) auto
    then show ?thesis by (simp add: ahead_def 1(2))
  qed (simp add: ahead_def 1(2))
  ultimately show ?thesis using 1(1,4) by auto
next
  case (2 d eff w)
  have "eff \<noteq> Panics" using 2(4) by (auto simp: remains_def split: if_splits)
  note owed = dispatcher_turn_owed [OF 2(3) this, unfolded 2(4)]
  have "rx \<in> set (owed (Some d))" "rx \<notin> set (settled eff)"
    using distinct_owed [OF once 2(1)] d'(2) unfolding owed by auto
  moreover have "disp_ok h2 (sys_registered s) d" using inv 2(1) by (simp add: sys_inv_def)
  ultimately show ?thesis
    using dispatcher_turn_ahead [OF _ 2(3)] dispatcher_turn_waits [of db h2 _ d _ d' w] 2
    by (cases "eff = Waits") (auto simp: Suc_le_eq)
next
  case (3 t)
  with d'(2) show ?thesis by (simp add: owed_def messages_def new_dispatcher_def)
qed

lemma ahead_run:
  assumes "sys_run db rows h2 s es s'" and "sys_inv rows h2 s" and "sent_once s"
    and "rx < net_next_rx (sys_net s)"
    and "chan_at (sys_net s') c = Some d'" and "rx \<in> set (owed (Some d'))"
  shows "\<exists>d. chan_at (sys_net s) c = Some d \<and> rx \<in> set (owed (Some d)) \<and>
     ahead rx d' + length (filter (works c) es) \<le> ahead rx d"
  using assms
proof (induction arbitrary: d' rule: sys_run.induct)
  case (run_snoc s es s' e s'')
  note keep = run_keeps [OF run_snoc(1,4,5)]
  have "rx < net_next_rx (sys_net s')" using keep run_snoc(6) by simp
  with ahead_step [OF run_snoc(2) _ _ run_snoc(7,8)] keep obtain d1
    where d1: "chan_at (sys_net s') c = Some d1" "rx \<in> set (owed (Some d1))"
      "ahead rx d' + (if works c e then 1 else 0) \<le> ahead rx d1" by blast
  from run_snoc(3) [OF run_snoc(4-6) d1(1,2)] d1(3) show ?case by auto
qed auto

end

subsection \<open>The history\<close>

lemma registered_addresses_iff:
  "(t, a) \<in> registered_addresses c \<longleftrightarrow> (\<exists>params. c = Register t params \<and> acr_address params = a)"
  by (cases c) auto

lemma created_tokens_iff: "t \<in> created_tokens c \<longleftrightarrow> (\<exists>u nm. c = InsertApp u nm t)"
  by (cases c) auto

lemma run_history:
  assumes "sys_run db rows h2 s es s'"
  shows "sys_registered s' = sys_registered s \<union> (\<Union>c \<in> {c. Writes c \<in> set es}. registered_addresses c)"
    and "sys_known s' = sys_known s \<union> (\<Union>c \<in> {c. Writes c \<in> set es}. created_tokens c)"
proof -
  have "sys_registered s' = sys_registered s \<union> (\<Union>c \<in> {c. Writes c \<in> set es}. registered_addresses c) \<and>
      sys_known s' = sys_known s \<union> (\<Union>c \<in> {c. Writes c \<in> set es}. created_tokens c)"
    using assms
  proof (induction rule: sys_run.induct)
    case (run_snoc s es s' e s'')
    from run_snoc(2) have "sys_registered s'' = sys_registered s' \<union> (case e of Writes c \<Rightarrow> registered_addresses c | _ \<Rightarrow> {}) \<and>
        sys_known s'' = sys_known s' \<union> (case e of Writes c \<Rightarrow> created_tokens c | _ \<Rightarrow> {})"
      by (cases rule: sys_step.cases) (auto simp: after_turn_def)
    with run_snoc(3) show ?case by (auto split: proxy_event.splits)
  qed simp
  then show "sys_registered s' = sys_registered s \<union> (\<Union>c \<in> {c. Writes c \<in> set es}. registered_addresses c)"
    and "sys_known s' = sys_known s \<union> (\<Union>c \<in> {c. Writes c \<in> set es}. created_tokens c)" by auto
qed


subsection \<open>Replaying a run\<close>

text \<open>A run of concrete steps over the in-memory table, the dispatchers' effects filled in.\<close>

fun replay1 ::
  "Response \<Rightarrow> (nat, nat) h2_ops \<Rightarrow> proxy_event \<Rightarrow> (mem, nat, nat) sys \<Rightarrow> (proxy_event \<times> (mem, nat, nat) sys) option" where
  "replay1 res h2 (Arrives req) s = Some (Arrives req, s\<lparr>sys_tasks := sys_tasks s @ [(req, Received)]\<rparr>)"
| "replay1 res h2 (Runs i) s =
     (if i < length (sys_tasks s) then
        (case sys_tasks s ! i of (req, st) \<Rightarrow>
           (case request_turn mem_db req st (sys_db s, sys_cache s, sys_net s) of
              None \<Rightarrow> None
            | Some (st', d, conns, n) \<Rightarrow>
                Some (Runs i, s\<lparr>sys_db := d, sys_cache := conns, sys_net := n,
                                sys_tasks := (sys_tasks s)[i := (req, st')]\<rparr>)))
      else None)"
| "replay1 res h2 (Dispatches c eff) s =
     (case chan_at (sys_net s) c of
        None \<Rightarrow> None
      | Some d \<Rightarrow>
          (case dispatcher_turn mem_db h2 (\<lambda>_. no_sender c s) d (sys_db s, sys_h2 s) of
             None \<Rightarrow> None
           | Some (eff, d', w) \<Rightarrow> Some (Dispatches c eff, after_turn c eff d' w s)))"
| "replay1 res h2 (Responds rx) s =
     (if rx \<in> set (net_inflight (sys_net s)) then
        Some (Responds rx, s\<lparr>sys_net := answer rx (Ok res)
          ((sys_net s)\<lparr>net_inflight := remove1 rx (net_inflight (sys_net s))\<rparr>)\<rparr>)
      else None)"
| "replay1 res h2 (Writes c) s =
     (case stmt_update c of
        None \<Rightarrow> None
      | Some (as, cs) \<Rightarrow>
          Some (Writes c,
            s\<lparr>sys_db := (sys_db s)\<lparr>table := update_rows as cs (table (sys_db s))\<rparr>,
              sys_known := sys_known s \<union> created_tokens c,
              sys_registered := sys_registered s \<union> registered_addresses c\<rparr>))"
| "replay1 res h2 (Invalidates t) s = Some (Invalidates t, s\<lparr>sys_cache := invalidate t (sys_cache s)\<rparr>)"
| "replay1 res h2 e s = None"

fun replay ::
  "Response \<Rightarrow> (nat, nat) h2_ops \<Rightarrow> proxy_event list \<Rightarrow> (mem, nat, nat) sys \<Rightarrow> (proxy_event list \<times> (mem, nat, nat) sys) option" where
  "replay res h2 [] s = Some ([], s)"
| "replay res h2 (e # es) s =
     (case replay1 res h2 e s of
        None \<Rightarrow> None
      | Some (e, s) \<Rightarrow> map_option (\<lambda>(es, s). (e # es, s)) (replay res h2 es s))"

lemma replay1_step:
  assumes "replay1 res h2 e s = Some (e', s')"
  shows "sys_step mem_db table h2 s e' s'"
proof (cases e)
  case (Writes c)
  then obtain as cs where "stmt_update c = Some (as, cs)" using assms by (auto split: option.splits)
  with Writes assms writes [of table s c "(sys_db s)\<lparr>table := update_rows as cs (table (sys_db s))\<rparr>" mem_db h2]
  show ?thesis by (auto intro: updated)
qed (use assms in \<open>auto intro: sys_step.intros split: if_splits option.splits prod.splits\<close>)

lemma run_cons: "sys_run db rows h2 s' es s'' \<Longrightarrow> sys_step db rows h2 s e s' \<Longrightarrow> sys_run db rows h2 s (e # es) s''"
proof (induction rule: sys_run.induct)
  case (run_nil s')
  then show ?case using run_snoc [OF sys_run.run_nil, of db rows h2 s e] by simp
next
  case (run_snoc s' es s1 e1 s2)
  then show ?case using sys_run.run_snoc [of db rows h2 s "e # es" s1 e1 s2] by simp
qed

lemma replay_run: "replay res h2 es s = Some (es', s') \<Longrightarrow> sys_run mem_db table h2 s es' s'"
proof (induction es arbitrary: s es')
  case (Cons e es)
  then obtain e1 s1 es1 where "replay1 res h2 e s = Some (e1, s1)" "replay res h2 es s1 = Some (es1, s')"
    "es' = e1 # es1" by (auto split: option.splits prod.splits)
  with Cons.IH show ?case by (auto intro: run_cons replay1_step)
qed (auto intro: run_nil)

text \<open>One request on its way to a running application and back.\<close>

definition proxy_sys :: "(mem, nat, nat) sys" where
  "proxy_sys = sys_init table demo_mem 0"

definition proxy_events :: "proxy_event list" where
  "proxy_events = [Arrives demo_req, Runs 0, Runs 0, Runs 0, Runs 0,
     Dispatches 0 Continues, Dispatches 0 Continues, Dispatches 0 Continues, Dispatches 0 Continues]"

definition proxy_run :: "proxy_event list \<times> (mem, nat, nat) sys" where
  "proxy_run = the (replay demo_res demo_h2 proxy_events proxy_sys)"

lemma proxy_run_some: "replay demo_res demo_h2 proxy_events proxy_sys \<noteq> None"
  by code_simp

lemma proxy_run_sent: "map (\<lambda>(rx, req, a). (rx, req_uri req, a)) (sys_sent (snd proxy_run)) =
   [(0, ''http://h:1/spark.connect.SparkConnectService/Config'', ''h:1'')]"
  by code_simp


lemma proxy_run_sys: "sys_run mem_db table demo_h2 (sys_init table demo_mem 0) (fst proxy_run) (snd proxy_run)"
  using proxy_run_some unfolding proxy_run_def
  by (intro replay_run [of demo_res _ proxy_events]) (auto simp: proxy_sys_def)

section \<open>Properties\<close>

text \<open>C11: isolation across the whole proxy. Whatever the tasks of the server do, in whatever order, a
  request is handed only to a connection opened to an address that a session registered with the
  very token the request carries (or that the table held for that token when the server
  started).\<close>

theorem proxy_forwards_to_own_session:
  assumes "app_store db rows" and "sys_run db rows h2 (sys_init rows d n) es s"
  shows "list_all (\<lambda>(rx, req, a). \<exists>t. extract_bearer_token (req_headers req) = Ok t \<and>
      ((t, a) \<in> recorded (rows d) \<or> (\<exists>params. Writes (Register t params) \<in> set es \<and> acr_address params = a)))
    (sys_sent s)"
proof -
  have "(t, a) \<in> recorded (rows d) \<or> (\<exists>params. Writes (Register t params) \<in> set es \<and> acr_address params = a)"
    if "(t, a) \<in> sys_registered s" for t a
    using that unfolding run_history(1) [OF assms(2)] by (auto simp: sys_init_def registered_addresses_iff)
  moreover have "list_all (\<lambda>(rx, req, a). \<exists>t. extract_bearer_token (req_headers req) = Ok t \<and>
      (t, a) \<in> sys_registered s) (sys_sent s)"
    using app_store.run_facts(1) [OF assms] by (simp add: sys_inv_def)
  ultimately show ?thesis by (fastforce simp: list_all_iff)
qed

theorem proxy_forwards_to_own_session_witness:
  "\<exists>req. (0, req, ''h:1'') \<in> set (sys_sent (snd proxy_run)) \<and> extract_bearer_token (req_headers req) = Ok ''t1''"
proof -
  obtain req where req: "(0, req, ''h:1'') \<in> set (sys_sent (snd proxy_run))"
    using proxy_run_sent by (cases "sys_sent (snd proxy_run)") (auto split: prod.splits)
  have "(t, a) \<in> recorded (table demo_mem) \<Longrightarrow> t = ''t1''" for t a
    by (simp add: recorded_iff demo_mem_def demo_app_def)
  moreover have "list_all (\<lambda>e. case e of Writes c \<Rightarrow> False | _ \<Rightarrow> True) (fst proxy_run)" by code_simp
  ultimately show ?thesis
    using proxy_forwards_to_own_session [OF mem.app_store_axioms proxy_run_sys] req
    by (fastforce simp: list_all_iff)
qed

text \<open>C13: requests and dispatchers never get out of step. In every run no dispatcher panics at
  \<open>upstream.as_mut().unwrap()\<close>, and the token comparison in the dispatcher never fails: a request
  only ever reaches the dispatcher of its own token.\<close>

theorem dispatchers_in_step:
  assumes "app_store db rows" and "sys_run db rows h2 (sys_init rows d n) es s"
    and "Dispatches c eff \<in> set es"
  shows "eff \<noteq> Panics \<and> eff \<noteq> Replies rx InvalidAuthorizationToken"
  using assms(2,3)
proof (induction "sys_init rows d n :: ('a, 'b, 'c) sys" es s rule: sys_run.induct)
  case (run_snoc es s' e s'')
  note inv = app_store.run_facts(1) [OF assms(1) run_snoc(1)]
  from run_snoc app_store.never_panics [OF assms(1) inv] show ?case by auto
qed simp

theorem dispatchers_in_step_witness:
  "\<exists>c eff. Dispatches c eff \<in> set (fst proxy_run) \<and> eff \<noteq> Panics"
proof -
  have "list_ex (\<lambda>e. case e of Dispatches c eff \<Rightarrow> True | _ \<Rightarrow> False) (fst proxy_run)" by code_simp
  then obtain e where e: "e \<in> set (fst proxy_run)" "case e of Dispatches c eff \<Rightarrow> True | _ \<Rightarrow> False"
    by (auto simp: list_ex_iff)
  from e(2) obtain c eff where "e = Dispatches c eff" by (cases e) auto
  with e(1) have "Dispatches c eff \<in> set (fst proxy_run)" by simp
  with dispatchers_in_step [OF mem.app_store_axioms proxy_run_sys this] show ?thesis by blast
qed

text \<open>C12: conservation of requests. Each message a dispatcher accepted is in exactly one place: still
  owed an answer, or answered. None is answered twice, none is sent upstream twice, and none is
  lost unless a task died.\<close>

theorem requests_conserved:
  assumes "app_store db rows" and "sys_run db rows h2 (sys_init rows d n) es s"
  shows "mset (pending (sys_net s)) + mset (map fst (net_answers (sys_net s)))
           \<subseteq># mset [0..<net_next_rx (sys_net s)] \<and>
         distinct (map fst (sys_sent s)) \<and>
         (list_all no_death es \<longrightarrow>
           mset (pending (sys_net s)) + mset (map fst (net_answers (sys_net s)))
             = mset [0..<net_next_rx (sys_net s)])"
proof -
  have "distinct (map fst (sys_sent s))"
    using app_store.run_sent_once [OF assms] by (simp add: sent_once_def Let_def)
  with app_store.run_books [OF assms] app_store.run_facts(2) [OF assms] show ?thesis
    by (auto simp: ledger_def)
qed

theorem requests_conserved_witness:
  "pending (sys_net (snd proxy_run)) = [0] \<and> map fst (net_answers (sys_net (snd proxy_run))) = [] \<and>
   distinct (map fst (sys_sent (snd proxy_run)))"
proof -
  have nd: "list_all no_death (fst proxy_run)" and k: "net_next_rx (sys_net (snd proxy_run)) = 1"
    and p: "pending (sys_net (snd proxy_run)) = [0]" by code_simp+
  from requests_conserved [OF mem.app_store_axioms proxy_run_sys] nd k p show ?thesis by auto
qed


text \<open>C16: as long as no task dies, every sender in the cache or held by a request belongs to a running
  dispatcher, so \<open>is_closed\<close> is never true and no request is answered with an internal error about
  a closed channel; and the cache only ever holds tokens of applications.\<close>

theorem senders_stay_open:
  assumes "app_store db rows" and "sys_run db rows h2 (sys_init rows d n) es s" and "list_all no_death es"
  shows "(hm_get (sys_cache s) t = Some c \<longrightarrow>
            \<not> is_closed task_ops c (sys_net s) \<and> task_tokens (sys_net s) c = Some t \<and>
            (t \<in> app_token ` set (rows d) \<or> (\<exists>u nm. Writes (InsertApp u nm t) \<in> set es))) \<and>
         list_all (\<lambda>(req, st). \<forall>m. st \<noteq> Completed (Err (Internal m))) (sys_tasks s)"
proof -
  have alive: "senders_alive s" using app_store.run_facts(2) [OF assms(1,2)] assms(3) by blast
  have inv: "sys_inv rows h2 s" by (rule app_store.run_facts(1) [OF assms(1,2)])
  have "t \<in> app_token ` set (rows d) \<or> (\<exists>u nm. Writes (InsertApp u nm t) \<in> set es)"
    if "t \<in> sys_known s"
    using that unfolding run_history(2) [OF assms(2)] by (auto simp: sys_init_def created_tokens_iff)
  moreover have "chan_at (sys_net s) c \<noteq> None \<and> task_tokens (sys_net s) c = Some t \<and> t \<in> sys_known s"
    if "hm_get (sys_cache s) t = Some c"
  proof -
    have "chan_at (sys_net s) c \<noteq> None" using alive that by (simp add: senders_alive_def)
    moreover have "t \<in> sys_known s" using inv that by (simp add: sys_inv_def)
    moreover have "cache_inv (task_tokens (sys_net s)) {..<length (net_chans (sys_net s))} (sys_cache s)"
      using inv by (simp add: sys_inv_def)
    then have "task_tokens (sys_net s) c = None \<or> task_tokens (sys_net s) c = Some t"
      using that unfolding cache_inv_def by blast
    ultimately show ?thesis by auto
  qed
  ultimately show ?thesis using alive by (auto simp: senders_alive_def task_ops_def)
qed

theorem senders_stay_open_witness:
  "hm_get (sys_cache (snd proxy_run)) ''t1'' = Some 0 \<and> task_tokens (sys_net (snd proxy_run)) 0 = Some ''t1''"
proof -
  have "list_all no_death (fst proxy_run)" and c: "hm_get (sys_cache (snd proxy_run)) ''t1'' = Some 0" by code_simp+
  with senders_stay_open [OF mem.app_store_axioms proxy_run_sys, of "''t1''" 0] show ?thesis by simp
qed

text \<open>C14: progress. A dispatcher that owes an answer can always take its next turn, and while it
  still owes a given answer it has taken fewer than eight turns (not counting polls of a launching
  application) for each message it had when we started to count: nothing that other tasks do, not
  even new requests for the same dispatcher, delays the answer further.\<close>

theorem dispatcher_bounded_work:
  assumes "app_store db rows" and "sys_run db rows h2 (sys_init rows d n) es s"
    and "chan_at (sys_net s) c = Some di" and "rx \<in> set (owed (Some di))"
    and "sys_run db rows h2 s es' s'" and "rx \<in> set (owed (chan_at (sys_net s') c))"
  shows "length (filter (works c) es') < 8 * length (messages di) \<and>
         (\<exists>eff s''. sys_step db rows h2 s' (Dispatches c eff) s'')"
proof -
  note keep = app_store.run_facts(1) [OF assms(1,2)] app_store.run_sent_once [OF assms(1,2)]
  from assms(6) obtain d' where d': "chan_at (sys_net s') c = Some d'" "rx \<in> set (owed (Some d'))"
    by (cases "chan_at (sys_net s') c") (auto simp: owed_def)
  have "set (owed (Some di)) \<subseteq> set (queued (sys_net s))"
    using chan_at_SomeD [OF assms(3)] nth_mem unfolding queued_def by fastforce
  then have "rx < net_next_rx (sys_net s)" using assms(4) keep(2) by (auto simp: sent_once_def Let_def)
  from app_store.ahead_run [OF assms(1,5) keep this d'] assms(3)
  have "ahead rx d' + length (filter (works c) es') \<le> ahead rx di" by auto
  moreover have "0 < ahead rx d'"
    by (rule ahead_pos [OF _ d'(2), of h2 "sys_registered s'"])
      (use app_store.run_keeps [OF assms(1,5) keep] d'(1) in \<open>simp add: sys_inv_def\<close>)
  moreover obtain eff d'' w where
    "dispatcher_turn db h2 (\<lambda>_. no_sender c s') d' (sys_db s', sys_h2 s') = Some (eff, d'', w)"
    using dispatcher_turn_progress [of d' db h2] d'(2) by (fastforce simp: owed_def)
  ultimately show ?thesis using ahead_le [OF assms(4)] dispatches [OF d'(1)] by fastforce
qed

definition proxy_run4 :: "proxy_event list \<times> (mem, nat, nat) sys" where
  "proxy_run4 = the (replay demo_res demo_h2 (take 5 proxy_events) proxy_sys)"

theorem dispatcher_bounded_work_witness:
  "\<exists>d. chan_at (sys_net (snd proxy_run4)) 0 = Some d \<and> owed (Some d) = [0] \<and> 0 < length (messages d) \<and>
       (\<exists>eff s''. sys_step mem_db table demo_h2 (snd proxy_run4) (Dispatches 0 eff) s'')"
proof -
  have "replay demo_res demo_h2 (take 5 proxy_events) proxy_sys \<noteq> None" by code_simp
  then have run: "sys_run mem_db table demo_h2 (sys_init table demo_mem 0) (fst proxy_run4) (snd proxy_run4)"
    unfolding proxy_run4_def by (intro replay_run [of demo_res _ "take 5 proxy_events"]) (auto simp: proxy_sys_def)
  have "owed (chan_at (sys_net (snd proxy_run4)) 0) = [0]" by code_simp
  then obtain d where d: "chan_at (sys_net (snd proxy_run4)) 0 = Some d" "owed (Some d) = [0]"
    by (cases "chan_at (sys_net (snd proxy_run4)) 0") (auto simp: owed_def)
  with dispatcher_bounded_work [OF mem.app_store_axioms run d(1) _ run_nil, of 0] show ?thesis by simp
qed

end
