(* ===== verification/Proxy_Refinement.thy ===== *)
theory Proxy_Refinement
  imports Proxy_Runs
begin

text \<open>
  The turns of \<open>Proxy_Tasks\<close> against the sequential handlers of \<open>Upstream\<close>: the turns of one request
  task, with the other tasks running where it is suspended, compute \<open>dispatch_request\<close>; the turns of
  one dispatcher, with the sleeps of its loops between them, compute \<open>upstream_message\<close>.
\<close>

section \<open>Definitions\<close>

text \<open>A request task is suspended in its query and in \<open>rx.await\<close>.\<close>

fun suspends :: "request_state \<Rightarrow> request_state \<Rightarrow> bool" where
  "suspends (Looking t) st = True"
| "suspends st (Awaiting c rx) = True"
| "suspends st st' = False"

fun run_request ::
  "'d db_ops \<Rightarrow> ('d \<times> connections \<times> 'snd net \<Rightarrow> 'd \<times> connections \<times> 'snd net) \<Rightarrow> Request \<Rightarrow> nat
   \<Rightarrow> request_state \<Rightarrow> 'd \<times> connections \<times> 'snd net \<Rightarrow> request_state \<times> 'd \<times> connections \<times> 'snd net" where
  "run_request db yield req 0 st w = (st, w)"
| "run_request db yield req (Suc k) st w =
     (case request_turn db req st w of
        None \<Rightarrow> (st, w)
      | Some (st', w') \<Rightarrow>
          run_request db yield req k st' (if suspends st st' then yield w' else w'))"

text \<open>The turns a dispatcher takes for one message, sleeping one second after a poll of a launching
  application and after a failed connection attempt, until the message is answered or sent.\<close>

fun redials :: "dispatch_phase \<Rightarrow> bool" where
  "redials (Dialing m a (Suc k)) = True"
| "redials p = False"

definition rest ::
  "(nat \<Rightarrow> 'd \<times> 'n \<Rightarrow> 'd \<times> 'n) \<Rightarrow> effect \<Rightarrow> 'snd dispatcher \<Rightarrow> 'd \<times> 'n \<Rightarrow> 'd \<times> 'n" where
  "rest sleep eff d s =
     (case eff of
        Waits \<Rightarrow> sleep 1000 s
      | _ \<Rightarrow> if redials (d_phase d) then sleep UPSTREAM_CONNECT_RETRY_DELAY s else s)"

inductive handles ::
  "'d db_ops \<Rightarrow> ('snd, 'n) h2_ops \<Rightarrow> (nat \<Rightarrow> 'd \<times> 'n \<Rightarrow> 'd \<times> 'n) \<Rightarrow> ('d \<times> 'n \<Rightarrow> bool)
   \<Rightarrow> 'snd dispatcher \<Rightarrow> 'd \<times> 'n \<Rightarrow> effect \<Rightarrow> 'snd dispatcher \<Rightarrow> 'd \<times> 'n \<Rightarrow> bool"
  for db :: "'d db_ops" and h2 :: "('snd, 'n) h2_ops" and sleep :: "nat \<Rightarrow> 'd \<times> 'n \<Rightarrow> 'd \<times> 'n"
    and closed :: "'d \<times> 'n \<Rightarrow> bool" where
  last_turn: "dispatcher_turn db h2 closed d s = Some (eff, d', s') \<Longrightarrow> settled eff \<noteq> [] \<Longrightarrow>
    handles db h2 sleep closed d s eff d' s'"
| next_turn: "dispatcher_turn db h2 closed d s = Some (eff, d1, s1) \<Longrightarrow> settled eff = [] \<Longrightarrow>
    handles db h2 sleep closed d1 (rest sleep eff d1 s1) eff' d' s' \<Longrightarrow>
    handles db h2 sleep closed d s eff' d' s'"

fun effect_of :: "nat \<Rightarrow> ('snd \<times> string) option \<Rightarrow> 'snd outcome \<Rightarrow> effect" where
  "effect_of rx up (Reply e) = Replies rx e"
| "effect_of rx up (Forwarded x req response) = Sends req rx (case up of None \<Rightarrow> [] | Some (y, a) \<Rightarrow> a)"

section \<open>Lemmas\<close>

text \<open>Whatever the dispatcher does from the second state on, it does from the first.\<close>

definition leads ::
  "'d db_ops \<Rightarrow> ('snd, 'n) h2_ops \<Rightarrow> (nat \<Rightarrow> 'd \<times> 'n \<Rightarrow> 'd \<times> 'n) \<Rightarrow> ('d \<times> 'n \<Rightarrow> bool)
   \<Rightarrow> 'snd dispatcher \<Rightarrow> 'd \<times> 'n \<Rightarrow> 'snd dispatcher \<Rightarrow> 'd \<times> 'n \<Rightarrow> bool" where
  "leads db h2 sleep closed d s d1 s1 \<longleftrightarrow>
     (\<forall>eff d' s'. handles db h2 sleep closed d1 s1 eff d' s' \<longrightarrow> handles db h2 sleep closed d s eff d' s')"

lemma leadsI:
  "dispatcher_turn db h2 closed d s = Some (eff, d1, s1) \<Longrightarrow> settled eff = [] \<Longrightarrow>
   leads db h2 sleep closed d s d1 (rest sleep eff d1 s1)"
  by (auto simp: leads_def intro: next_turn)

lemma leadsD:
  "leads db h2 sleep closed d s d1 s1 \<Longrightarrow> handles db h2 sleep closed d1 s1 eff d' s' \<Longrightarrow>
   handles db h2 sleep closed d s eff d' s'"
  unfolding leads_def by blast

lemma leads_trans:
  "leads db h2 sleep closed d s d1 s1 \<Longrightarrow> leads db h2 sleep closed d1 s1 d2 s2 \<Longrightarrow>
   leads db h2 sleep closed d s d2 s2"
  unfolding leads_def by blast

lemma handles_forward:
  assumes "d_phase d = Forwarding (req, rx)" and "d_upstream d = Some up"
    and "forward_request h2 up req s = (out, up', s')"
  shows "handles db h2 sleep closed d s (effect_of rx up' out) (d\<lparr>d_upstream := up', d_phase := Receiving\<rparr>) s'"
proof (rule last_turn)
  obtain x a where up: "up = (x, a)" by (rule prod.exhaust)
  from assms(3) [unfolded up] have "out = Forwarded y req' z \<Longrightarrow> up' = Some (x, a)" for y req' z
    by (cases rule: forward_cases) auto
  with assms up show "dispatcher_turn db h2 closed d s = Some (effect_of rx up' out, d\<lparr>d_upstream := up', d_phase := Receiving\<rparr>, s')"
    by (cases out) (simp_all add: dispatcher_turn_def)
  show "settled (effect_of rx up' out) \<noteq> []" by (cases out) (simp_all add: settled_def)
qed

lemma handles_mark:
  assumes "d_phase d = Marking (req, rx) e" and "mark_application_failed db (d_token d) s = (r, s')"
  shows "handles db h2 sleep closed d s (Replies rx (case r of Err e' \<Rightarrow> e' | Ok _ \<Rightarrow> e)) (d\<lparr>d_phase := Receiving\<rparr>) s'"
  by (rule last_turn) (use assms in \<open>auto simp: dispatcher_turn_def settled_def split: Result.splits\<close>)

lemma connect_retryable: "connect_upstream h2 a s = (Err e, s') \<Longrightarrow> retryable e"
  by (auto simp: connect_upstream_def retryable_def split: Result.splits prod.splits)

lemma handles_dial:
  assumes "d_phase d = Dialing (req, rx) a k" and "k + left = Suc MAX_UPSTREAM_CONNECT_RETRIES"
    and "connect_attempts h2 sleep a left le s = (r, s1)" and "0 < left"
  shows "case r of
      Return (Ok (x, b)) \<Rightarrow> b = a \<and>
        leads db h2 sleep closed d s (d\<lparr>d_upstream := Some (x, a), d_phase := Forwarding (req, rx)\<rparr>) s1
    | FallThrough (Some e) \<Rightarrow> leads db h2 sleep closed d s (d\<lparr>d_phase := Marking (req, rx) e\<rparr>) s1
    | _ \<Rightarrow> False"
  using assms
proof (induction left arbitrary: d k le s)
  case (Suc left)
  obtain q s2 where q: "connect_upstream h2 a s = (q, s2)" by (rule prod.exhaust)
  show ?case
  proof (cases q)
    case (Ok x)
    have "dispatcher_turn db h2 closed d s =
        Some (Continues, d\<lparr>d_upstream := Some (x, a), d_phase := Forwarding (req, rx)\<rparr>, s2)"
      using Suc.prems(1) q Ok by (simp add: dispatcher_turn_def)
    from leadsI [OF this] Suc.prems(3) q Ok show ?thesis by (auto simp: settled_def rest_def)
  next
    case (Err e)
    have re: "retryable e" using connect_retryable q Err by blast
    let ?p = "if k < MAX_UPSTREAM_CONNECT_RETRIES then Dialing (req, rx) a (Suc k) else Marking (req, rx) e"
    have "dispatcher_turn db h2 closed d s = Some (Continues, d\<lparr>d_phase := ?p\<rparr>, s2)"
      using Suc.prems(1) q Err re by (simp add: dispatcher_turn_def)
    note step = leadsI [OF this]
    have loop: "connect_attempts h2 sleep a left (Some e)
        (if 0 < left then sleep UPSTREAM_CONNECT_RETRY_DELAY s2 else s2) = (r, s1)"
      using Suc.prems(3) q Err re by (auto simp: retryable_def split: Error.splits)
    show ?thesis
    proof (cases left)
      case 0
      then have "\<not> k < MAX_UPSTREAM_CONNECT_RETRIES" using Suc.prems(2) by simp
      with 0 loop step show ?thesis by (auto simp: settled_def rest_def)
    next
      case (Suc l)
      let ?d = "d\<lparr>d_phase := Dialing (req, rx) a (Suc k)\<rparr>" and ?s = "sleep UPSTREAM_CONNECT_RETRY_DELAY s2"
      have "k < MAX_UPSTREAM_CONNECT_RETRIES" using Suc.prems(2) Suc by simp
      with step have first: "leads db h2 sleep closed d s ?d ?s" by (simp add: settled_def rest_def)
      have "case r of
          Return (Ok (x, b)) \<Rightarrow> b = a \<and>
            leads db h2 sleep closed ?d ?s (?d\<lparr>d_upstream := Some (x, a), d_phase := Forwarding (req, rx)\<rparr>) s1
        | FallThrough (Some e) \<Rightarrow> leads db h2 sleep closed ?d ?s (?d\<lparr>d_phase := Marking (req, rx) e\<rparr>) s1
        | _ \<Rightarrow> False"
        by (rule Suc.IH [of _ "Suc k" "Some e"]) (use Suc.prems(2) Suc loop in auto)
      with first show ?thesis
        by (auto intro: leads_trans split: loop_end.splits Result.splits option.splits prod.splits)
    qed
  qed
qed simp

lemma handles_answer:
  assumes "d_phase d = Resolving (req, rx)" and "\<not> waiting db closed (d_token d) s"
    and "resolve_upstream_address db sleep closed (d_token d) s = Some (r, s1)"
  shows "case r of
      Err e \<Rightarrow> handles db h2 sleep closed d s (Replies rx e) (d\<lparr>d_phase := Receiving\<rparr>) s1
    | Ok a \<Rightarrow> leads db h2 sleep closed d s (d\<lparr>d_phase := Dialing (req, rx) a 0\<rparr>) s1"
proof -
  have r: "address_answer db closed (d_token d) s = r" "poll_end db closed (d_token d) s = s1"
    using assms(2,3) resolve_step [of db sleep closed "d_token d" s] by auto
  show ?thesis
  proof (cases r)
    case (Ok a)
    with assms(1,2) r have "dispatcher_turn db h2 closed d s = Some (Continues, d\<lparr>d_phase := Dialing (req, rx) a 0\<rparr>, s1)"
      by (simp add: dispatcher_turn_def)
    from leadsI [OF this] Ok show ?thesis by (simp add: settled_def rest_def)
  next
    case (Err e)
    with assms(1,2) r have "dispatcher_turn db h2 closed d s = Some (Replies rx e, d\<lparr>d_phase := Receiving\<rparr>, s1)"
      by (simp add: dispatcher_turn_def)
    from last_turn [OF this] Err show ?thesis by (simp add: settled_def)
  qed
qed

lemma handles_resolve:
  assumes d: "d_phase d = Resolving (req, rx)"
    and res: "resolve_upstream_address db sleep closed (d_token d) s = Some (r, s1)"
  shows "case r of
      Err e \<Rightarrow> handles db h2 sleep closed d s (Replies rx e) (d\<lparr>d_phase := Receiving\<rparr>) s1
    | Ok a \<Rightarrow> leads db h2 sleep closed d s (d\<lparr>d_phase := Dialing (req, rx) a 0\<rparr>) s1"
proof -
  from resolve_returns [OF res] obtain k where "\<not> waiting db closed (d_token d) (poll db sleep (d_token d) s k)" ..
  then show ?thesis using res
  proof (induction k arbitrary: s)
    case 0
    then show ?case using handles_answer [OF d] by simp
  next
    case (Suc k)
    show ?case
    proof (cases "waiting db closed (d_token d) s")
      case True
      let ?s = "poll db sleep (d_token d) s (Suc 0)"
      have "dispatcher_turn db h2 closed d s = Some (Waits, d, poll_end db closed (d_token d) s)"
        using True d by (simp add: dispatcher_turn_def)
      from leadsI [OF this] have step: "leads db h2 sleep closed d s d ?s"
        using True by (simp add: settled_def rest_def poll_end_def waiting_def)
      have "case r of Err e \<Rightarrow> handles db h2 sleep closed d ?s (Replies rx e) (d\<lparr>d_phase := Receiving\<rparr>) s1
        | Ok a \<Rightarrow> leads db h2 sleep closed d ?s (d\<lparr>d_phase := Dialing (req, rx) a 0\<rparr>) s1"
        by (rule Suc.IH) (use Suc.prems True resolve_step [of db sleep closed "d_token d" s] in auto)
      with step show ?thesis by (auto intro: leadsD leads_trans split: Result.splits)
    qed (use Suc.prems(2) handles_answer [OF d] in blast)
  qed
qed

lemma handles_connection:
  assumes d: "d_phase d = Resolving (req, rx)"
    and res: "resolve_upstream_connection db h2 sleep closed (d_token d) s = Some (r, s1)"
  shows "case r of
      Err e \<Rightarrow> handles db h2 sleep closed d s (Replies rx e) (d\<lparr>d_phase := Receiving\<rparr>) s1
    | Ok up \<Rightarrow> leads db h2 sleep closed d s (d\<lparr>d_upstream := Some up, d_phase := Forwarding (req, rx)\<rparr>) s1"
proof -
  obtain q s2 where q: "resolve_upstream_address db sleep closed (d_token d) s = Some (q, s2)"
    using res by (auto simp: resolve_upstream_connection_def split: option.splits)
  note resolved = handles_resolve [OF d q, where ?h2.0 = h2]
  show ?thesis
  proof (cases q)
    case (Err e)
    with resolved res q show ?thesis by (auto simp: resolve_upstream_connection_def)
  next
    case (Ok a)
    let ?d = "d\<lparr>d_phase := Dialing (req, rx) a 0\<rparr>"
    have con: "connect_with_retries db h2 sleep (d_token d) a s2 = (r, s1)"
      using res q Ok by (simp add: resolve_upstream_connection_def)
    have first: "leads db h2 sleep closed d s ?d s2" using resolved Ok by simp
    obtain l s3 where l: "connect_attempts h2 sleep a (Suc MAX_UPSTREAM_CONNECT_RETRIES) None s2 = (l, s3)"
      by (rule prod.exhaust)
    note dialed = handles_dial [OF _ _ l, of ?d req rx 0 db closed]
    show ?thesis
    proof (cases l)
      case (Return x)
      with dialed first con l show ?thesis
        by (auto simp: connect_with_retries_def intro: leads_trans split: Result.splits prod.splits)
    next
      case (FallThrough le)
      with dialed obtain e where e: "le = Some e" by (auto split: option.splits)
      obtain m s4 where m: "mark_application_failed db (d_token d) s3 = (m, s4)" by (rule prod.exhaust)
      have second: "leads db h2 sleep closed ?d s2 (?d\<lparr>d_phase := Marking (req, rx) e\<rparr>) s3"
        using dialed FallThrough e by simp
      have "handles db h2 sleep closed (?d\<lparr>d_phase := Marking (req, rx) e\<rparr>) s3
          (Replies rx (case m of Err e' \<Rightarrow> e' | Ok _ \<Rightarrow> e)) (d\<lparr>d_phase := Receiving\<rparr>) s4"
        using handles_mark [of "?d\<lparr>d_phase := Marking (req, rx) e\<rparr>" req rx e db s3 m s4] m by simp
      then have "handles db h2 sleep closed d s
          (Replies rx (case m of Err e' \<Rightarrow> e' | Ok _ \<Rightarrow> e)) (d\<lparr>d_phase := Receiving\<rparr>) s4"
        using first second by (blast intro: leadsD)
      with con l FallThrough e m show ?thesis by (cases m) (auto simp: connect_with_retries_def)
    qed
  qed
qed

text \<open>The part of \<open>dispatch_request\<close> that follows \<open>sender_for\<close>.\<close>

definition after_sender ::
  "('d \<times> connections \<times> 'snd net \<Rightarrow> 'd \<times> connections \<times> 'snd net) \<Rightarrow> Request \<Rightarrow> string \<Rightarrow> nat \<Rightarrow> 'd
   \<Rightarrow> connections \<Rightarrow> 'snd net \<Rightarrow> (Response, Error) Result \<times> 'd \<times> connections \<times> 'snd net" where
  "after_sender yield req token sender d conns n =
     (case chan_send task_ops sender req n of
        (None, n) \<Rightarrow> (Err (Internal ''Upstream unexpectedly closed''), d, remove_closed task_ops token conns n, n)
      | (Some rx, n) \<Rightarrow>
          (case yield (d, conns, n) of (d, conns, n) \<Rightarrow>
             (case hm_get (net_answers n) rx of
                None \<Rightarrow> (Err (Internal ''Upstream response channel unexpectedly closed''), d, conns, n)
              | Some res \<Rightarrow> (res, d, conns, n))))"

lemma await_task_ops [simp]: "await_answer task_ops rx n = (hm_get (net_answers n) rx, n)"
  by (simp add: task_ops_def)

lemma dispatch_request_eq:
  "dispatch_request db task_ops yield req d conns n =
     (case extract_bearer_token (req_headers req) of
        Err e \<Rightarrow> (Err e, d, conns, n)
      | Ok token \<Rightarrow>
          (case sender_for db task_ops yield token d conns n of
             (Err e, d, conns, n) \<Rightarrow> (Err e, d, conns, n)
           | (Ok sender, d, conns, n) \<Rightarrow> after_sender yield req token sender d conns n))"
  unfolding dispatch_request_def after_sender_def await_task_ops
  by (simp split: Result.splits prod.splits option.splits)

definition agrees ::
  "request_state \<times> 'd \<times> connections \<times> 'snd net \<Rightarrow> (Response, Error) Result \<times> 'd \<times> connections \<times> 'snd net \<Rightarrow> bool" where
  "agrees run result =
     (case run of
        (Completed r, w) \<Rightarrow> result = (r, w)
      | (Awaiting c rx, (d, conns, n)) \<Rightarrow> rx \<in> set (pending n)
      | _ \<Rightarrow> False)"

lemma run_send:
  "agrees (run_request db yield req (Suc (Suc k)) (Sending t c) (d, conns, n)) (after_sender yield req t c d conns n)"
proof -
  obtain r n1 where s: "chan_send task_ops c req n = (r, n1)" by (rule prod.exhaust)
  have completed: "run_request db yield req k (Completed r) w = (Completed r, w)" for k r w
    by (cases k) (simp_all add: request_turn_def split: prod.splits)
  obtain d2 conns2 n2 where y: "yield (d, conns, n1) = (d2, conns2, n2)" by (metis prod_cases3)
  from s y completed show ?thesis
    by (cases r) (auto simp: request_turn_def after_sender_def agrees_def split: option.splits)
qed

section \<open>Properties\<close>

text \<open>C15: the turns of a dispatcher compute what the body of its loop computes: whenever handling a
  message ends (\<open>upstream_message\<close>), the interleaved dispatcher, taking its turns with the same
  sleeps between them, answers or sends that message with the same result, the same upstream
  connection and the same database and network.\<close>

theorem dispatcher_turns_refine_message:
  assumes "d_phase d = Receiving" and "d_queue d = (req, rx) # q"
    and "upstream_message db h2 sleep closed (d_token d) (d_upstream d) req s = Some (out, up, s')"
  shows "handles db h2 sleep closed d s (effect_of rx up out)
           (d\<lparr>d_queue := q, d_upstream := up, d_phase := Receiving\<rparr>) s'"
proof -
  let ?d = "d\<lparr>d_queue := q\<rparr>"
  have same: "d\<lparr>d_queue := q, d_upstream := d_upstream d, d_phase := Receiving\<rparr> = ?d"
    and same': "d\<lparr>d_queue := q, d_phase := Receiving\<rparr> = ?d"
    using assms(1) by (cases d; simp)+
  consider (refused) e where "out = Reply e" "up = d_upstream d" "s' = s"
      "dispatcher_turn db h2 closed d s = Some (Replies rx e, ?d, s)"
    | (known) u where "d_upstream d = Some u" "forward_request h2 u req s = (out, up, s')"
      "dispatcher_turn db h2 closed d s = Some (Continues, ?d\<lparr>d_phase := Forwarding (req, rx)\<rparr>, s)"
    | (unknown) r s1 where "d_upstream d = None"
      "resolve_upstream_connection db h2 sleep closed (d_token d) s = Some (r, s1)"
      "dispatcher_turn db h2 closed d s = Some (Continues, ?d\<lparr>d_phase := Resolving (req, rx)\<rparr>, s)"
      "case r of Err e \<Rightarrow> (out, up, s') = (Reply e, None, s1) | Ok u \<Rightarrow> (out, up, s') = forward_request h2 u req s1"
    using assms
    by (auto simp: upstream_message_def dispatcher_turn_def split: Result.splits if_splits option.splits prod.splits)
  then show ?thesis
  proof cases
    case refused
    with last_turn [OF refused(4)] same show ?thesis by (simp add: settled_def)
  next
    case known
    let ?f = "?d\<lparr>d_phase := Forwarding (req, rx)\<rparr>"
    have "leads db h2 sleep closed d s ?f s" using leadsI [OF known(3)] by (simp add: settled_def rest_def)
    moreover have "handles db h2 sleep closed ?f s (effect_of rx up out)
        (d\<lparr>d_queue := q, d_upstream := up, d_phase := Receiving\<rparr>) s'"
      using handles_forward [OF _ _ known(2), of ?f rx] known(1) by simp
    ultimately show ?thesis by (rule leadsD)
  next
    case unknown
    from leadsI [OF unknown(3)] have first: "leads db h2 sleep closed d s (?d\<lparr>d_phase := Resolving (req, rx)\<rparr>) s"
      by (simp add: settled_def rest_def)
    note con = handles_connection [of "?d\<lparr>d_phase := Resolving (req, rx)\<rparr>" req rx db h2 sleep closed s r s1]
    show ?thesis
    proof (cases r)
      case (Err e)
      with con unknown first same same' show ?thesis by (auto intro: leadsD)
    next
      case (Ok u)
      have "forward_request h2 u req s1 = (out, up, s')" using unknown(4) Ok by simp
      from handles_forward [OF _ _ this, of "?d\<lparr>d_upstream := Some u, d_phase := Forwarding (req, rx)\<rparr>"]
      have "handles db h2 sleep closed (?d\<lparr>d_upstream := Some u, d_phase := Forwarding (req, rx)\<rparr>) s1
          (effect_of rx up out) (d\<lparr>d_queue := q, d_upstream := up, d_phase := Receiving\<rparr>) s'" by simp
      moreover have "leads db h2 sleep closed (?d\<lparr>d_phase := Resolving (req, rx)\<rparr>) s
          (?d\<lparr>d_upstream := Some u, d_phase := Forwarding (req, rx)\<rparr>) s1"
        using con unknown(2) Ok by simp
      ultimately show ?thesis using first by (blast intro: leadsD)
    qed
  qed
qed


definition demo_disp :: "nat dispatcher" where
  "demo_disp = \<lparr>d_token = ''t1'', d_queue = [(demo_req, 0)], d_upstream = Some (7, ''h:1''), d_phase = Receiving\<rparr>"

theorem dispatcher_turns_refine_message_witness:
  "\<exists>req d'. handles mem_db demo_h2 (\<lambda>k s. s) (\<lambda>s. False) demo_disp (demo_mem, 0) (Sends req 0 ''h:1'') d' (demo_mem, 0)"
proof -
  have tok: "extract_bearer_token (req_headers demo_req) = Ok ''t1''" by code_simp
  let ?req = "demo_req\<lparr>req_uri := ''http://h:1/spark.connect.SparkConnectService/Config''\<rparr>"
  have "upstream_message mem_db demo_h2 (\<lambda>k s. s) (\<lambda>s. False) ''t1'' (Some (7, ''h:1'')) demo_req (demo_mem, 0) =
      Some (Forwarded 7 ?req 3, Some (7, ''h:1''), demo_mem, 0)"
    by (simp add: upstream_message_def tok forward_request_def demo_h2_def) (simp add: demo_req_def)
  from dispatcher_turns_refine_message [of demo_disp demo_req 0 "[]" mem_db demo_h2 "\<lambda>k s. s" "\<lambda>s. False"] this
  have "handles mem_db demo_h2 (\<lambda>k s. s) (\<lambda>s. False) demo_disp (demo_mem, 0) (Sends ?req 0 ''h:1'')
      (demo_disp\<lparr>d_queue := [], d_upstream := Some (7, ''h:1''), d_phase := Receiving\<rparr>) (demo_mem, 0)"
    by (fastforce simp: demo_disp_def)
  then show ?thesis by blast
qed

text \<open>The turns of a request task compute \<open>dispatch_request\<close>: run in sequence, with the other
  tasks running while it waits for the database and for its answer, they end with the result of
  the handler in the same world, or the task is still waiting for an answer that is owed.\<close>

lemma request_turns_are_dispatch_request:
  "case run_request db yield req 5 Received (d, conns, n) of
     (Completed r, w) \<Rightarrow> dispatch_request db task_ops yield req d conns n = (r, w)
   | (Awaiting c rx, (d', conns', n')) \<Rightarrow> rx \<in> set (pending n')
   | _ \<Rightarrow> False"
proof -
  let ?r = "run_request db yield req"
  have five: "(5 :: nat) = Suc (Suc (Suc (Suc (Suc 0))))" by simp
  have "agrees (?r 5 Received (d, conns, n)) (dispatch_request db task_ops yield req d conns n)"
  proof (cases "extract_bearer_token (req_headers req)")
    case (Err e)
    then show ?thesis by (simp add: five request_turn_def dispatch_request_def agrees_def)
  next
    case (Ok t)
    show ?thesis
    proof (cases "open_sender task_ops conns t n")
      case (Some c)
      with Ok run_send [of db yield req "Suc (Suc 0)" t c d conns n] show ?thesis
        by (simp add: five request_turn_def dispatch_request_eq sender_for_def)
    next
      case None
      obtain q d1 where q: "db_one db (by_token t) d = (q, d1)" by (rule prod.exhaust)
      obtain d2 conns2 n2 where y: "yield (d1, conns, n) = (d2, conns2, n2)" by (metis prod_cases3)
      obtain c conns3 n3 where i: "sender_for_insert task_ops t conns2 n2 = (c, conns3, n3)" by (metis prod_cases3)
      from Ok None q y i run_send [of db yield req 0 t c d2 conns3 n3] show ?thesis
        by (cases q; cases "ok_val q")
          (auto simp: five request_turn_def dispatch_request_eq sender_for_def agrees_def)
    qed
  qed
  then show ?thesis unfolding agrees_def .
qed

end
