(* ===== verification/Client.thy ===== *)
theory Client
  imports Routes
begin

text \<open>
  The Rust client library (\<open>clients/rust/src/lib.rs\<close>). The HTTP client \<open>reqwest\<close>, JSON decoding, the
  \<open>url\<close> crate and the Spark session builder are library code and arguments; an \<open>anyhow::Error\<close> is its
  text.
\<close>

section \<open>Definitions\<close>

record Application =
  cl_id :: int
  cl_token :: string
  cl_active :: bool
  cl_log_url :: "string option"

record CreateApplication =
  ca_version :: "string option"
  ca_config :: HashMap

text \<open>A request of the client: method, URL and body.\<close>

datatype client_request = Post string CreateApplication | Delete string

record ('resp, 's, 'n) client_ops =
  client_send :: "client_request \<Rightarrow> 'n \<Rightarrow> ('resp, string) Result \<times> 'n"
  json_application :: "'resp \<Rightarrow> (Application, string) Result"
  resp_error_for_status :: "'resp \<Rightarrow> (unit, string) Result"
  url_parse :: "string \<Rightarrow> (string option \<times> u16 option, string) Result"
  spawn_get_or_create :: "string \<Rightarrow> 'n \<Rightarrow> (('s, string) Result, string) Result \<times> 'n"

definition client_url :: "string \<Rightarrow> string \<Rightarrow> string" where
  "client_url base_url path = base_url @ path"

definition create_application ::
  "('resp, 's, 'n) client_ops \<Rightarrow> string \<Rightarrow> string option \<Rightarrow> HashMap \<Rightarrow> 'n
   \<Rightarrow> (Application, string) Result \<times> 'n" where
  "create_application ops base_url version config n =
     (case client_send ops (Post (client_url base_url ''/apps'') \<lparr>ca_version = version, ca_config = config\<rparr>) n of
        (Err e, n) \<Rightarrow> (Err e, n)
      | (Ok resp, n) \<Rightarrow> (json_application ops resp, n))"

definition connection_string :: "string \<Rightarrow> string \<Rightarrow> u16 option \<Rightarrow> Application \<Rightarrow> string" where
  "connection_string base_url host port app =
     (let port_str = (case port of None \<Rightarrow> [] | Some p \<Rightarrow> '':'' @ show_nat (unat p));
          sc_url = ''sc://'' @ host @ port_str;
          use_ssl = (if starts_with base_url ''https'' then '';use_ssl=true'' else [])
      in sc_url @ ''/;token='' @ cl_token app @ use_ssl)"

text \<open>How a call of \<open>create_session\<close> can fail: with an error, or by the panic of \<open>host_str().unwrap()\<close>.\<close>

datatype client_error = Anyhow string | ClientPanic string

text \<open>\<open>spawn_blocking\<close> runs \<open>get_or_create\<close> on a thread of its own: the outer result is the \<open>JoinError\<close> of a
  thread that panicked or was cancelled, the inner one that of the builder.\<close>

definition create_session ::
  "('resp, 's, 'n) client_ops \<Rightarrow> string \<Rightarrow> Application \<Rightarrow> 'n \<Rightarrow> ('s, client_error) Result \<times> 'n" where
  "create_session ops base_url app n =
     (case url_parse ops base_url of
        Err e \<Rightarrow> (Err (Anyhow e), n)
      | Ok (host, port) \<Rightarrow>
     (case host of
        None \<Rightarrow> (Err (ClientPanic ''called `Option::unwrap()` on a `None` value''), n)
      | Some host \<Rightarrow>
     (case spawn_get_or_create ops (connection_string base_url host port app) n of
        (Err join_error, n) \<Rightarrow> (Err (Anyhow join_error), n)
      | (Ok (Err e), n) \<Rightarrow> (Err (Anyhow e), n)
      | (Ok (Ok session), n) \<Rightarrow> (Ok session, n))))"

definition stop_application ::
  "('resp, 's, 'n) client_ops \<Rightarrow> string \<Rightarrow> int \<Rightarrow> 'n \<Rightarrow> (unit, string) Result \<times> 'n" where
  "stop_application ops base_url aid n =
     (case client_send ops (Delete (client_url base_url (''/apps/'' @ show_int aid))) n of
        (Err e, n) \<Rightarrow> (Err e, n)
      | (Ok resp, n) \<Rightarrow> (resp_error_for_status ops resp, n))"

text \<open>What a Spark Connect client reads from a connection string: after \<open>/;\<close>, parameters separated by
  semicolons, each split at the first equals sign.\<close>

fun sc_params :: "string list \<Rightarrow> HashMap" where
  "sc_params [] = []"
| "sc_params (s # ss) =
     (case split_once (CHR ''='') s of None \<Rightarrow> sc_params ss | Some kv \<Rightarrow> kv # sc_params ss)"

definition read_params :: "string \<Rightarrow> HashMap" where
  "read_params conn = sc_params (split_char (CHR '';'') conn)"

section \<open>Lemmas\<close>

lemma digit_char_plain: "d < 10 \<Longrightarrow> digit_char d \<noteq> CHR '';'' \<and> digit_char d \<noteq> CHR ''=''"
proof -
  assume d: "d < 10"
  then have "(of_char (digit_char d) :: nat) = 48 + d" by (simp add: digit_char_def)
  then have "(of_char (digit_char d) :: nat) \<noteq> of_char (CHR '';'')"
    "(of_char (digit_char d) :: nat) \<noteq> of_char (CHR ''='')" using d by simp_all
  then show ?thesis by metis
qed

lemma show_nat_plain: "c \<in> set (show_nat n) \<Longrightarrow> c \<noteq> CHR '';'' \<and> c \<noteq> CHR ''=''"
proof (induction n rule: show_nat.induct)
  case (1 n)
  from 1(2) have "c \<in> set (if n < 10 then [digit_char n] else show_nat (n div 10) @ [digit_char (n mod 10)])"
    by (simp only: show_nat.simps [of n])
  with 1(1) digit_char_plain [of n] digit_char_plain [of "n mod 10"] show ?case by (auto split: if_splits)
qed

section \<open>Properties\<close>

text \<open>C35: the connection string of a session carries the credential: for a host name without
  separators and a token without semicolons, a Spark Connect client reads from it exactly the
  token of the application, and TLS is requested exactly for an \<open>https\<close> base URL.\<close>

theorem connection_string_params:
  assumes "CHR '';'' \<notin> set host" and "CHR ''='' \<notin> set host" and "CHR '';'' \<notin> set (cl_token app)"
  shows "read_params (connection_string base_url host port app) =
     (''token'', cl_token app) # (if starts_with base_url ''https'' then [(''use_ssl'', ''true'')] else [])"
proof -
  let ?a = "''sc://'' @ host @ (case port of None \<Rightarrow> [] | Some p \<Rightarrow> '':'' @ show_nat (unat p)) @ ''/''"
  have a: "CHR '';'' \<notin> set ?a" "CHR ''='' \<notin> set ?a"
    using assms show_nat_plain by (auto split: option.splits)
  let ?t = "''token='' @ cl_token app"
  have t: "CHR '';'' \<notin> set ?t" "split_once (CHR ''='') ?t = Some (''token'', cl_token app)"
    using assms split_once_append [of "CHR ''=''" "''token''" "cl_token app"] by simp_all
  have ssl: "split_once (CHR ''='') ''use_ssl=true'' = Some (''use_ssl'', ''true'')"
    "split_char (CHR '';'') ''use_ssl=true'' = [''use_ssl=true'']" by simp_all
  have conn: "connection_string base_url host port app = ?a @ CHR '';'' # ?t @
      (if starts_with base_url ''https'' then CHR '';'' # ''use_ssl=true'' else [])"
    by (simp add: connection_string_def Let_def split: option.splits)
  have "split_char (CHR '';'') (connection_string base_url host port app) =
      ?a # ?t # (if starts_with base_url ''https'' then [''use_ssl=true''] else [])"
    unfolding conn split_char_append [OF a(1)]
    using split_char_append [OF t(1), of "''use_ssl=true''"] split_char_single [OF t(1)] ssl(2)
    by (cases "starts_with base_url ''https''") (simp_all del: append.simps)
  then show ?thesis
    unfolding read_params_def using split_once_None_iff [of "CHR ''=''" ?a] a(2) t(2) ssl(1) by (simp del: append.simps)
qed

theorem connection_string_params_witness:
  "read_params (connection_string ''https://plug:8443'' ''plug'' (Some 8443)
      \<lparr>cl_id = 1, cl_token = ''t1'', cl_active = False, cl_log_url = None\<rparr>) =
   [(''token'', ''t1''), (''use_ssl'', ''true'')]"
  using connection_string_params [of "''plug''" "\<lparr>cl_id = 1, cl_token = ''t1'', cl_active = False,
      cl_log_url = None\<rparr>" "''https://plug:8443''" "Some 8443"]
  by (simp add: starts_with_def)

end
