(* ===== verification/No_Panics.thy ===== *)
theory No_Panics
  imports Routes
begin

text \<open>
  The panics of the HTTP API (\<open>server/src/routes.rs\<close>, \<open>launcher.rs\<close>, \<open>config.rs\<close>): indexing the list of
  versions in \<open>launch\<close> and the template macro of \<open>render_ui_url\<close> and \<open>render_log_url\<close>. Neither is
  reached on a server that \<open>from_config\<close> has built, as long as the configured templates are valid.
\<close>

section \<open>Vocabulary\<close>

text \<open>The error statuses of the API.\<close>

definition api_status :: "handler_error \<Rightarrow> bool" where
  "api_status e \<longleftrightarrow> e \<in> StatusErr ` {BAD_REQUEST, UNAUTHORIZED, NOT_FOUND, INTERNAL_SERVER_ERROR}"

section \<open>Lemmas\<close>

text \<open>A server that \<open>from_config\<close> has built has at least one Spark version, so selecting the first one
  cannot fail.\<close>

lemma from_config_versions: "launcher_from_config os config = Ok l \<Longrightarrow> versions l \<noteq> []"
  by (auto simp: launcher_from_config_def and_then_Ok_iff split: if_splits option.splits prod.splits)

lemma launch_no_panic:
  assumes "versions l \<noteq> []"
  shows "fst (launch os ops iter l v i nm u t cfg pk n) \<noteq> Err (LaunchPanic p)"
proof (cases "select_version l v")
  case (Err e)
  with assms show ?thesis
    by (auto simp: launch_def select_version_def split: option.splits list.splits)
qed (auto simp: launch_def split: Result.splits prod.splits)

lemma application_info_renders: "templates_render st \<Longrightarrow> application_info st m \<noteq> Err e"
  by (simp add: application_info_described)

lemma collect_infos_renders: "templates_render st \<Longrightarrow> collect_infos st ms \<noteq> Err e"
  by (simp add: collect_infos_described)

lemma api_status_simps [simp]:
  "api_status (StatusErr BAD_REQUEST)" "api_status (StatusErr UNAUTHORIZED)"
  "api_status (StatusErr NOT_FOUND)" "api_status (StatusErr INTERNAL_SERVER_ERROR)"
  by (simp_all add: api_status_def)

lemma map_answer_Err: "map_answer f p = (Err e, s) \<longleftrightarrow> p = (Err e, s)"
  by (cases p; cases "fst p") auto

lemma create_app_status:
  assumes "templates_render st" and "\<And>v i nm u t cfg pk n p. fst (trait_launch (state_launcher st) v i nm u t cfg pk n) \<noteq> Err (LaunchPanic p)"
    and "create_app st user params s = (Err e, s')"
  shows "api_status e"
proof -
  have "trait_launch (state_launcher st) v i nm u t cfg pk n \<noteq> (Err (LaunchPanic p), n')"
    for v i nm u t cfg pk n p n' using assms(2) by (metis fst_conv)
  then show ?thesis
    using assms(3)
    by (auto simp: create_app_def application_info_renders [OF assms(1)] Let_def
        split: prod.splits Result.splits launch_error.splits)
qed

lemma delete_app_status: "delete_app st i user s = (Err e, s') \<Longrightarrow> api_status e"
  by (auto simp: delete_app_def split: prod.splits Result.splits option.splits)

lemma get_app_status: "templates_render st \<Longrightarrow> get_app st i user s = (Err e, s') \<Longrightarrow> api_status e"
  by (auto simp: get_app_def application_info_renders split: prod.splits Result.splits option.splits)

lemma list_apps_status: "templates_render st \<Longrightarrow> list_apps st user params s = (Err e, s') \<Longrightarrow> api_status e"
  by (auto simp: list_apps_def collect_infos_renders split: prod.splits Result.splits
      dest: list_query_Err)

lemma callback_status: "app_callback st token params s = (Err e, s') \<Longrightarrow> api_status e"
  "app_callback_delete st token s = (Err e, s') \<Longrightarrow> api_status e"
  by (auto simp: app_callback_def app_callback_delete_def split: prod.splits Result.splits if_splits)

section \<open>Property\<close>

text \<open>C17: no request panics. For a server whose launcher \<open>from_config\<close> has built and whose URL templates
  can be rendered, a request that fails, on any route, with any headers and any behaviour of the
  database and the network, is answered with 400, 401, 404 or 500.\<close>

theorem api_never_panics:
  assumes "launcher_from_config os config = Ok l"
    and "state_launcher st = spark_launcher os ops iter l" and "templates_render st"
    and "get_router auth methods st headers call s = (Err e, s')"
  shows "e \<in> StatusErr ` {BAD_REQUEST, UNAUTHORIZED, NOT_FOUND, INTERNAL_SERVER_ERROR}"
proof -
  have panic: "fst (trait_launch (state_launcher st) v i nm u t cfg pk n) \<noteq> Err (LaunchPanic p)" for v i nm u t cfg pk n p
    using launch_no_panic [OF from_config_versions [OF assms(1)]] by (simp add: assms(2) spark_launcher_def)
  have user: "user_api st u call s = (Err e, s') \<Longrightarrow> api_status e" for u
    by (cases call) (auto simp: map_answer_Err intro: create_app_status [OF assms(3) panic] delete_app_status
        get_app_status [OF assms(3)] list_apps_status [OF assms(3)])
  have cb: "callback_api st t call s = (Err e, s') \<Longrightarrow> api_status e" for t
    by (cases call) (auto simp: map_answer_Err intro: callback_status)
  have tok: "TokenAuth_authorize headers = Err c \<Longrightarrow> c \<in> {BAD_REQUEST, UNAUTHORIZED}" for c
    by (auto simp: TokenAuth_authorize_def split: option.splits Result.splits if_splits)
  have usr: "UserAuth_authorize auth methods headers = Err c \<Longrightarrow> c = UNAUTHORIZED" for c
    by (auto simp: UserAuth_authorize_def split: option.splits)
  show ?thesis
    using assms(4) user cb tok usr by (auto simp: get_router_def api_status_def split: if_splits Result.splits)
qed

definition panic_procs :: "nat proc_ops" where
  "panic_procs = \<lparr>temp_dir = (\<lambda>p n. (Ok ''/tmp/spark-plug-venv1'', n)), run_status = (\<lambda>c as n. (Ok True, n)),
     spawn = (\<lambda>c as env n. (Ok n, Suc n))\<rparr>"

definition panic_host :: host where
  "panic_host = demo_host\<lparr>path_exists := (\<lambda>p. True), embedded_plugin := None\<rparr>"

definition panic_config :: ProxyConfig where
  "panic_config = ProxyConfig_default\<lparr>spark_versions := Some [demo_version],
     callback_address := Some ''http://localhost:8100'', ui_url_template := Some ''http://ui/''\<rparr>"

theorem api_never_panics_witness:
  "\<exists>l e s'. launcher_from_config panic_host panic_config = Ok l \<and>
     get_router demo_auth_ops [RemoteUserAuth ''REMOTE_USER'']
       (demo_st\<lparr>state_config := panic_config, state_launcher := spark_launcher panic_host panic_procs (\<lambda>m. m) l\<rparr>)
       demo_headers (GetApp 7) (demo_mem, [], 0) = (Err e, s') \<and>
     e \<in> StatusErr ` {400, 401, 404, 500}"
proof -
  obtain l where l: "launcher_from_config panic_host panic_config = Ok l"
    by (simp add: launcher_from_config_def panic_config_def panic_host_def get_callback_addr_def)
  let ?st = "demo_st\<lparr>state_config := panic_config, state_launcher := spark_launcher panic_host panic_procs (\<lambda>m. m) l\<rparr>"
  have "get_app ?st 7 ''bob'' (demo_mem, [], 0) = (Err (StatusErr NOT_FOUND), demo_mem, [], 0)"
    by (simp add: get_app_def of_user_def demo_st_def mem_db_def with_fault_def demo_mem_def demo_app_def blank_row_def)
  then have r: "get_router demo_auth_ops [RemoteUserAuth ''REMOTE_USER''] ?st demo_headers (GetApp 7) (demo_mem, [], 0) =
      (Err (StatusErr NOT_FOUND), demo_mem, [], 0)"
    by (simp add: get_router_def is_callback_def demo_simps(3))
  have t: "templates_render ?st" by (simp add: templates_render_def demo_st_def)
  have "state_launcher ?st = spark_launcher panic_host panic_procs (\<lambda>m. m) l" by simp
  from api_never_panics [OF l this t r] l r show ?thesis
    unfolding BAD_REQUEST_def UNAUTHORIZED_def NOT_FOUND_def INTERNAL_SERVER_ERROR_def by blast
qed
end
