(* ===== verification/Test_Fixtures.thy ===== *)
theory Test_Fixtures
  imports Proxy_Runs "HOL-Library.Monad_Syntax"
begin

text \<open>
  The fixtures of the unit tests of the server (the modules \<open>test_utils\<close> and \<open>test\<close> of
  \<open>server/src/lib.rs\<close>, \<open>routes.rs\<close>, \<open>proxy.rs\<close>): the mock launcher, the router over an empty
  in-memory table, and the assertions. The tests themselves, translated line by line, are in
  \<open>Api_Tests\<close> and \<open>Unit_Tests\<close>; what they use of libraries is an argument of every test, so that a test
  passes for every UUID generator, template engine and network that behaves as documented and
  not only for one recorded run.
\<close>

section \<open>Libraries\<close>

text \<open>\<open>Uuid::new_v4\<close> (the \<open>k\<close>-th one drawn), the template engine, the HTTP client, the libraries of
  authentication, \<open>HeaderValue::from_str\<close>, the network and the address the test listens on, the order
  in which a \<open>HashMap\<close> is iterated, \<open>Migrator::up\<close>, \<open>DateTimeUtc::from_timestamp\<close>, the clock as the
  test reads it first and the server after that, and the \<open>Query\<close> extractor of axum for the query string of
  a listing.\<close>

record libs =
  lib_uuid :: "nat \<Rightarrow> string"
  lib_render :: "string \<Rightarrow> string \<Rightarrow> string option"
  lib_http :: "nat http_client"
  lib_auth :: "(string, string) auth_ops"
  lib_from_str :: "string \<Rightarrow> (string, string) Result"
  lib_h2 :: "(nat, nat) h2_ops"
  lib_listener :: string
  lib_hash_order :: "HashMap \<Rightarrow> HashMap"
  lib_up :: "Migration list \<Rightarrow> mem \<Rightarrow> (unit, DbErr) Result \<times> mem"
  lib_from_timestamp :: "int \<Rightarrow> DateTimeUtc option"
  lib_now :: u64
  lib_later :: u64
  lib_query :: "string \<Rightarrow> (ListApplicationsRequest, StatusCode) Result"

text \<open>What the tests rely on: UUIDs are different and printable; text before an expression is copied by
  the template engine; the process has a user; printable header values are accepted; port 9 of the
  loopback interface (the discard service) is closed, and the port the test listens on is open; iterating
  a map visits each entry once; no migration is pending after the first \<open>up\<close>; times up to the
  year 9999 are representable, and less than 50 seconds pass during a test; the query extractor passes
  a word on as it is and rejects a time that does not start with a digit or a sign with 400.\<close>

definition uuids_ok :: "libs \<Rightarrow> bool" where
  "uuids_ok L \<longleftrightarrow> inj (lib_uuid L) \<and> (\<forall>k. list_all visible_ascii (lib_uuid L k) \<and> lib_uuid L k \<noteq> [])"

definition render_ok :: "libs \<Rightarrow> bool" where
  "render_ok L \<longleftrightarrow> (\<forall>text a. CHR ''{'' \<notin> set text \<longrightarrow>
     lib_render L (text @ ''{{ application_id }}'') a = Some (text @ a))"

definition user_ok :: "libs \<Rightarrow> bool" where
  "user_ok L \<longleftrightarrow> is_ok (whoami_username (lib_auth L))"

definition discard_closed :: "libs \<Rightarrow> bool" where
  "discard_closed L \<longleftrightarrow>
     (\<forall>hs n. \<not> is_ok (fst (http_post (lib_http L) (session_url ''127.0.0.1:9'') hs n))) \<and>
     (\<forall>n. \<not> is_ok (fst (tcp_connect (lib_h2 L) ''127.0.0.1:9'' n)))"

definition listener_open :: "libs \<Rightarrow> bool" where
  "listener_open L \<longleftrightarrow>
     (\<forall>n. is_ok (fst (tcp_connect (lib_h2 L) (lib_listener L) n))) \<and>
     (\<forall>c n. is_ok (fst (h2_handshake (lib_h2 L) c n))) \<and>
     (\<forall>x n. is_ok (fst (h2_ready (lib_h2 L) x n))) \<and>
     (\<forall>path. is_ok (parse_uri (lib_h2 L) (''http://'' @ lib_listener L @ path)))"

definition migrated :: "libs \<Rightarrow> bool" where
  "migrated L \<longleftrightarrow> (\<forall>d. lib_up L migrations d = (Ok (), d))"

definition clock_ok :: "libs \<Rightarrow> bool" where
  "clock_ok L \<longleftrightarrow>
     120 \<le> uint (lib_now L) \<and> uint (lib_now L) \<le> uint (lib_later L) \<and>
     uint (lib_later L) < uint (lib_now L) + 50 \<and> uint (lib_later L) < 253402300800 \<and>
     (\<forall>s. 0 \<le> s \<and> s < 253402300800 \<longrightarrow> lib_from_timestamp L s = Some (s * 10 ^ 9))"

definition query_ok :: "libs \<Rightarrow> bool" where
  "query_ok L \<longleftrightarrow>
     (\<forall>word. list_all (\<lambda>c. c \<notin> set ''&=%+'') word \<longrightarrow> lib_query L (''state='' @ word) =
        Ok \<lparr>lar_state = Some word, lar_created_at_after = None, lar_created_at_before = None\<rparr>) \<and>
     (\<forall>c word. c \<notin> set ''0123456789+-%&'' \<longrightarrow> lib_query L (''created_at_after='' @ c # word) = Err BAD_REQUEST)"

definition libs_ok :: "libs \<Rightarrow> bool" where
  "libs_ok L \<longleftrightarrow>
     uuids_ok L \<and> render_ok L \<and> user_ok L \<and> discard_closed L \<and> listener_open L \<and> migrated L \<and> clock_ok L \<and>
     accepts_visible_ascii (lib_from_str L) \<and> visits_once (lib_hash_order L) \<and> query_ok L"

section \<open>Fixtures\<close>

text \<open>\<open>MockLauncher\<close> starts no process: its task ends after sixty seconds, later than any test.\<close>

definition MockLauncher :: "nat Launcher" where
  "MockLauncher = \<lparr>
     trait_launch = (\<lambda>version_name session_id app_name username token user_config python_packages n.
       (Ok (0, 60), n)),
     trait_get_versions = [''4.0.0'']\<rparr>"

definition default_user_auth :: "(string, string) UserAuthMethod list" where
  "default_user_auth = [CurrentUserAuth]"

text \<open>\<open>sqlite::memory:\<close> after the migrations.\<close>

definition fresh_db :: mem where
  "fresh_db = \<lparr>table = [], next_id = 1, mem_now = 0, faults = []\<rparr>"

definition test_state :: "libs \<Rightarrow> ProxyConfig \<Rightarrow> (mem, nat) AppStateDyn" where
  "test_state L config = \<lparr>
     state_db = mem_db, state_launcher = MockLauncher, state_config = config,
     new_v4 = (\<lambda>n. (lib_uuid L n, Suc n)), render_template = lib_render L, state_http = lib_http L,
     spawn_watcher = (\<lambda>i h n. n)\<rparr>"

type_synonym test_world = "(mem, nat) world"

type_synonym test_router =
  "HeaderMap \<Rightarrow> api_call \<Rightarrow> test_world \<Rightarrow> (api_answer, handler_error) Result \<times> test_world"

definition create_test_router_with_config ::
  "libs \<Rightarrow> ProxyConfig \<Rightarrow> (string, string) UserAuthMethod list \<Rightarrow> test_router \<times> mem" where
  "create_test_router_with_config L config user_auth =
     (get_router (lib_auth L) user_auth (test_state L config), fresh_db)"

text \<open>The test server of \<open>routes.rs\<close>, with an empty cache.\<close>

definition create_test_server_with_config :: "libs \<Rightarrow> ProxyConfig \<Rightarrow> test_router \<times> test_world" where
  "create_test_server_with_config L config =
     (case create_test_router_with_config L config [RemoteUserAuth ''REMOTE_USER'', CurrentUserAuth] of
        (router, db) \<Rightarrow> (router, db, [], 0))"

definition create_test_server :: "libs \<Rightarrow> test_router \<times> test_world" where
  "create_test_server L = create_test_server_with_config L ProxyConfig_default"

text \<open>While the server sleeps between two attempts, nobody else uses the database of a test.\<close>

definition quiet :: "nat \<Rightarrow> 'd \<times> 'n \<Rightarrow> 'd \<times> 'n" where
  "quiet ms s = s"

section \<open>Assertions\<close>

text \<open>A test that fails is \<open>None\<close>. Reading a body as JSON fails when the status is not a success.\<close>

definition assert_that :: "bool \<Rightarrow> unit option" where
  "assert_that b = (if b then Some () else None)"

fun json_info :: "(api_answer, handler_error) Result \<times> 'w \<Rightarrow> (ApplicationInfo \<times> 'w) option" where
  "json_info (Ok (AnInfo info), w) = Some (info, w)"
| "json_info r = None"

fun json_infos :: "(api_answer, handler_error) Result \<times> 'w \<Rightarrow> (ApplicationInfo list \<times> 'w) option" where
  "json_infos (Ok (Infos infos), w) = Some (infos, w)"
| "json_infos r = None"

fun status_ok :: "(api_answer, handler_error) Result \<times> 'w \<Rightarrow> 'w option" where
  "status_ok (Ok x, w) = Some w"
| "status_ok (Err e, w) = None"

definition passes :: "unit option \<Rightarrow> bool" where
  "passes t \<longleftrightarrow> t = Some ()"

definition no_headers :: HeaderMap where
  "no_headers = header_map_of []"

definition remote_user :: "string \<Rightarrow> HeaderMap" where
  "remote_user user = header_map_of [(''REMOTE_USER'', user)]"

definition authorization_bearer :: "string \<Rightarrow> HeaderMap" where
  "authorization_bearer token = header_map_of [(''authorization'', ''Bearer '' @ token)]"

definition CreateApplicationRequest_default :: CreateApplicationRequest where
  "CreateApplicationRequest_default =
     \<lparr>car_name = None, car_version = None, car_config = None, car_python_packages = None\<rparr>"

definition no_filter :: ListApplicationsRequest where
  "no_filter = \<lparr>lar_state = None, lar_created_at_after = None, lar_created_at_before = None\<rparr>"

text \<open>A listing with a query string: the authorization layer comes first, then the extractor, then the
  handler.\<close>

definition get_apps_query :: "libs \<Rightarrow> test_router \<Rightarrow> HeaderMap \<Rightarrow> string \<Rightarrow> test_world \<Rightarrow> (api_answer, handler_error) Result" where
  "get_apps_query L server headers query w =
     (case UserAuth_authorize (lib_auth L) [RemoteUserAuth ''REMOTE_USER'', CurrentUserAuth] headers of
        Err code \<Rightarrow> Err (StatusErr code)
      | Ok user \<Rightarrow>
          (case lib_query L query of
             Err code \<Rightarrow> Err (StatusErr code)
           | Ok params \<Rightarrow> fst (server headers (ListApps params) w)))"

section \<open>Evaluation\<close>

lemma current_user: "user_ok L \<Longrightarrow> \<exists>u. UserAuth_authorize (lib_auth L)
    [RemoteUserAuth ''REMOTE_USER'', CurrentUserAuth] no_headers = Ok u"
  by (cases "whoami_username (lib_auth L)")
     (auto simp: user_ok_def UserAuth_authorize_def authorize_defs no_headers_def header_map_of_def)

lemma remote_user_authorized: "list_all visible_ascii user \<Longrightarrow>
  UserAuth_authorize ops (RemoteUserAuth ''REMOTE_USER'' # ms) (remote_user user) = Ok user"
  by (simp add: UserAuth_authorize_def authorize_defs remote_user_def header_map_of_def)

lemma bearer_authorized: "list_all visible_ascii token \<Longrightarrow>
  TokenAuth_authorize (authorization_bearer token) = Ok token"
  by (simp add: TokenAuth_authorize_def authorization_bearer_def header_map_of_def visible_ascii_def)

lemma render_okD: "render_ok L \<Longrightarrow> CHR ''{'' \<notin> set text \<Longrightarrow>
  lib_render L (text @ ''{{ application_id }}'') a = Some (text @ a)"
  by (simp add: render_ok_def)

lemmas template_rendered =
  render_okD [of _ "''https://knox.example.com/gateway/default/yarn/app/''", simplified]
  render_okD [of _ "''https://knox.example.com/gateway/default/yarn/logs/''", simplified]
  render_okD [of _ "''https://example.com/logs/''", simplified]
  render_okD [of _ "''https://example.com/ui/''", simplified]

lemma state_names_trimmed:
  "trim ''RUNNING'' = ''RUNNING''" "trim ''FINISHED'' = ''FINISHED''" "trim ''NOT_A_STATE'' = ''NOT_A_STATE''"
  by (simp_all add: trim_graphic_id graphic_def)

text \<open>The definitions a request of a test runs through, for the simplifier.\<close>

lemmas request_eval =
  create_test_server_def create_test_server_with_config_def create_test_router_with_config_def
  get_router_def is_callback_def remote_user_authorized bearer_authorized visible_ascii_def
  CreateApplicationRequest_default_def create_app_def test_state_def fresh_db_def
  mem_db_def with_fault_def mem_insert_def mem_update_many_def mem_update_def update_rows_def fresh_id_def
  new_application_def list_apps_def list_query_def no_filter_def state_filter_def get_app_def of_user_def
  delete_app_def app_callback_def app_callback_delete_def running_assigns_def finished_assigns_def by_token_def
  MockLauncher_def application_info_def render_ui_url_def render_log_url_def render_url_def
  ProxyConfig_default_def blank_row_def assert_that_def passes_def matching_def invalidate_def

end
