(* ===== verification/Api_Tests.thy ===== *)
theory Api_Tests
  imports Test_Fixtures
begin

text \<open>
  The tests of the HTTP API (\<open>server/src/routes.rs\<close>, module \<open>test\<close>), request by request, and that
  each of them passes on the model for all libraries that behave as documented. Query strings and JSON
  bodies appear as the values \<open>axum\<close> extracts from them.
\<close>

section \<open>Tests\<close>

definition callback_request :: "string \<Rightarrow> string \<Rightarrow> api_call" where
  "callback_request address spark_id =
     AppCallback \<lparr>acr_address = address, acr_application_id = spark_id\<rparr>"

definition test_routes :: "libs \<Rightarrow> bool" where
  "test_routes L = passes (
     case create_test_server L of (server, w) \<Rightarrow> do {
       (apps, w) \<leftarrow> json_infos (server no_headers (ListApps no_filter) w);
       assert_that (apps = []);
       (app, w) \<leftarrow> json_info (server no_headers (CreateApp CreateApplicationRequest_default) w);
       (found, w) \<leftarrow> json_info (server no_headers (GetApp (info_id app)) w);
       assert_that (found = app);
       w \<leftarrow> status_ok (server (authorization_bearer (info_token app))
              (callback_request ''localhost:12345'' ''test-app-1'') w);
       (app, w) \<leftarrow> json_info (server no_headers (GetApp (info_id app)) w);
       assert_that (info_active app);
       assert_that (info_state app = ''RUNNING'');
       w \<leftarrow> status_ok (server (authorization_bearer (info_token app)) AppCallbackDelete w);
       (app, w) \<leftarrow> json_info (server no_headers (GetApp (info_id app)) w);
       assert_that (\<not> info_active app);
       assert_that (info_state app = ''FINISHED'')
     })"

definition test_users :: "libs \<Rightarrow> bool" where
  "test_users L = passes (
     case create_test_server L of (server, w) \<Rightarrow> do {
       (app, w) \<leftarrow> json_info (server (remote_user ''user1'') (CreateApp CreateApplicationRequest_default) w);
       (apps, w) \<leftarrow> json_infos (server (remote_user ''user2'') (ListApps no_filter) w);
       assert_that (apps = []);
       (apps, w) \<leftarrow> json_infos (server (remote_user ''user1'') (ListApps no_filter) w);
       assert_that (apps = [app])
     })"

definition test_create_app_with_name :: "libs \<Rightarrow> bool" where
  "test_create_app_with_name L = passes (
     case create_test_server L of (server, w) \<Rightarrow> do {
       (app, w) \<leftarrow> json_info (server no_headers
         (CreateApp (CreateApplicationRequest_default\<lparr>car_name := Some ''my-session''\<rparr>)) w);
       assert_that (info_name app = Some ''my-session'');
       (apps, w) \<leftarrow> json_infos (server no_headers (ListApps no_filter) w);
       assert_that (apps \<noteq> [] \<and> info_name (hd apps) = Some ''my-session'')
     })"

definition test_delete_app_marks_finished :: "libs \<Rightarrow> bool" where
  "test_delete_app_marks_finished L = passes (
     case create_test_server L of (server, w) \<Rightarrow> do {
       (app, w) \<leftarrow> json_info (server no_headers (CreateApp CreateApplicationRequest_default) w);
       w \<leftarrow> status_ok (server no_headers (DeleteApp (info_id app)) w);
       (updated, w) \<leftarrow> json_info (server no_headers (GetApp (info_id app)) w);
       assert_that (info_state updated = ''FINISHED'');
       assert_that (\<not> info_active updated)
     })"

subsection \<open>Rendered URLs\<close>

definition test_ui_url_rendering :: "libs \<Rightarrow> bool" where
  "test_ui_url_rendering L = passes (
     case create_test_server_with_config L
       (ProxyConfig_default\<lparr>
          ui_url_template := Some ''https://knox.example.com/gateway/default/yarn/app/{{ application_id }}'',
          log_url_template := Some ''https://knox.example.com/gateway/default/yarn/logs/{{ application_id }}''\<rparr>)
     of (server, w) \<Rightarrow> do {
       (app, w) \<leftarrow> json_info (server (remote_user ''testuser'') (CreateApp CreateApplicationRequest_default) w);
       assert_that (info_ui_url app = None);
       assert_that (info_log_url app = None);
       assert_that (info_state app = ''LAUNCHING'');
       w \<leftarrow> status_ok (server (authorization_bearer (info_token app))
              (callback_request ''localhost:54321'' ''app-20251119-001'') w);
       (updated_app, w) \<leftarrow> json_info (server (remote_user ''testuser'') (GetApp (info_id app)) w);
       assert_that (info_state updated_app = ''RUNNING'');
       assert_that (info_active updated_app);
       assert_that (info_ui_url updated_app =
         Some ''https://knox.example.com/gateway/default/yarn/app/app-20251119-001'');
       assert_that (info_log_url updated_app =
         Some ''https://knox.example.com/gateway/default/yarn/logs/app-20251119-001'')
     })"

definition test_log_url_rendering_in_list :: "libs \<Rightarrow> bool" where
  "test_log_url_rendering_in_list L = passes (
     case create_test_server_with_config L
       (ProxyConfig_default\<lparr>log_url_template := Some ''https://example.com/logs/{{ application_id }}''\<rparr>)
     of (server, w) \<Rightarrow> do {
       (app, w) \<leftarrow> json_info (server (remote_user ''user1'') (CreateApp CreateApplicationRequest_default) w);
       w \<leftarrow> status_ok (server (authorization_bearer (info_token app))
              (callback_request ''localhost:12345'' ''spark-app-logs'') w);
       (apps, w) \<leftarrow> json_infos (server (remote_user ''user1'') (ListApps no_filter) w);
       found \<leftarrow> List.find (\<lambda>candidate. info_id candidate = info_id app) apps;
       assert_that (info_log_url found = Some ''https://example.com/logs/spark-app-logs'')
     })"

definition test_ui_url_rendering_in_list :: "libs \<Rightarrow> bool" where
  "test_ui_url_rendering_in_list L = passes (
     case create_test_server_with_config L
       (ProxyConfig_default\<lparr>ui_url_template := Some ''https://example.com/ui/{{ application_id }}''\<rparr>)
     of (server, w) \<Rightarrow> do {
       (app1, w) \<leftarrow> json_info (server (remote_user ''user1'') (CreateApp CreateApplicationRequest_default) w);
       (app2, w) \<leftarrow> json_info (server (remote_user ''user1'') (CreateApp CreateApplicationRequest_default) w);
       w \<leftarrow> status_ok (server (authorization_bearer (info_token app1))
              (callback_request ''localhost:11111'' ''spark-app-1'') w);
       w \<leftarrow> status_ok (server (authorization_bearer (info_token app2))
              (callback_request ''localhost:22222'' ''spark-app-2'') w);
       (apps, w) \<leftarrow> json_infos (server (remote_user ''user1'') (ListApps no_filter) w);
       assert_that (length apps = 2);
       updated_app1 \<leftarrow> List.find (\<lambda>a. info_id a = info_id app1) apps;
       updated_app2 \<leftarrow> List.find (\<lambda>a. info_id a = info_id app2) apps;
       assert_that (info_ui_url updated_app1 = Some ''https://example.com/ui/spark-app-1'');
       assert_that (info_ui_url updated_app2 = Some ''https://example.com/ui/spark-app-2'')
     })"

definition test_ui_url_none_without_template :: "libs \<Rightarrow> bool" where
  "test_ui_url_none_without_template L = passes (
     case create_test_server_with_config L ProxyConfig_default of (server, w) \<Rightarrow> do {
       (app, w) \<leftarrow> json_info (server (remote_user ''testuser'') (CreateApp CreateApplicationRequest_default) w);
       w \<leftarrow> status_ok (server (authorization_bearer (info_token app))
              (callback_request ''localhost:99999'' ''some-app-id'') w);
       (updated_app, w) \<leftarrow> json_info (server (remote_user ''testuser'') (GetApp (info_id app)) w);
       assert_that (info_ui_url updated_app = None)
     })"

subsection \<open>Filters\<close>

text \<open>Two of the tests start the same way: one application is running and another one was deleted.\<close>

definition one_running_one_deleted ::
  "test_router \<Rightarrow> test_world \<Rightarrow> string \<Rightarrow> string
   \<Rightarrow> (ApplicationInfo \<times> ApplicationInfo \<times> test_world) option" where
  "one_running_one_deleted server w address spark_id = do {
     (launching, w) \<leftarrow> json_info (server (remote_user ''user1'') (CreateApp CreateApplicationRequest_default) w);
     (running, w) \<leftarrow> json_info (server (remote_user ''user1'') (CreateApp CreateApplicationRequest_default) w);
     w \<leftarrow> status_ok (server (authorization_bearer (info_token running))
            (callback_request address spark_id) w);
     w \<leftarrow> status_ok (server (remote_user ''user1'') (DeleteApp (info_id launching)) w);
     Some (launching, running, w)
   }"

definition test_list_apps_filters_by_state :: "libs \<Rightarrow> bool" where
  "test_list_apps_filters_by_state L = passes (
     case create_test_server L of (server, w) \<Rightarrow> do {
       (launching, running, w) \<leftarrow> one_running_one_deleted server w ''localhost:9999'' ''spark-app-running'';
       (filtered, w) \<leftarrow> json_infos (server (remote_user ''user1'')
         (ListApps (no_filter\<lparr>lar_state := Some ''RUNNING''\<rparr>)) w);
       assert_that (length filtered = 1);
       assert_that (info_id (hd filtered) = info_id running);
       assert_that (info_state (hd filtered) = ''RUNNING'')
     })"

definition test_list_apps_filters_by_multiple_states :: "libs \<Rightarrow> bool" where
  "test_list_apps_filters_by_multiple_states L = passes (
     case create_test_server L of (server, w) \<Rightarrow> do {
       (launching, running, w) \<leftarrow>
         one_running_one_deleted server w ''localhost:8765'' ''spark-app-running-multi'';
       (filtered, w) \<leftarrow> json_infos (server (remote_user ''user1'')
         (ListApps (no_filter\<lparr>lar_state := Some ''RUNNING,FINISHED''\<rparr>)) w);
       assert_that (length filtered = 2);
       assert_that (list_ex (\<lambda>a. info_id a = info_id running \<and> info_state a = ''RUNNING'') filtered);
       assert_that (list_ex (\<lambda>a. info_id a = info_id launching \<and> info_state a = ''FINISHED'') filtered)
     })"

text \<open>The test writes the creation times itself; a \<open>DateTimeUtc\<close> counts nanoseconds. The handle to the
  database is the one of the router.\<close>

definition set_created_at :: "int \<Rightarrow> DateTimeUtc \<Rightarrow> test_world \<Rightarrow> test_world option" where
  "set_created_at i t w =
     (case w of (d, conns, n) \<Rightarrow>
        (case db_update mem_db i [(ColCreatedAt, VTime t)] d of
           (Err e, d) \<Rightarrow> None
         | (Ok m, d) \<Rightarrow> Some (d, conns, n)))"

definition created_exactly_at :: "DateTimeUtc \<Rightarrow> ListApplicationsRequest" where
  "created_exactly_at t = no_filter\<lparr>lar_created_at_after := Some t, lar_created_at_before := Some t\<rparr>"

definition test_list_apps_filters_by_created_at :: "libs \<Rightarrow> bool" where
  "test_list_apps_filters_by_created_at L = passes (
     case create_test_server_with_config L ProxyConfig_default of (server, w) \<Rightarrow> do {
       (first, w) \<leftarrow> json_info (server (remote_user ''user1'') (CreateApp CreateApplicationRequest_default) w);
       (second, w) \<leftarrow> json_info (server (remote_user ''user1'') (CreateApp CreateApplicationRequest_default) w);
       w \<leftarrow> set_created_at (info_id first) (1700000000 * 10 ^ 9) w;
       w \<leftarrow> set_created_at (info_id second) (1700000060 * 10 ^ 9) w;
       (first_apps, w) \<leftarrow> json_infos (server (remote_user ''user1'')
         (ListApps (created_exactly_at (1700000000 * 10 ^ 9))) w);
       assert_that (length first_apps = 1);
       assert_that (info_id (hd first_apps) = info_id first);
       (second_apps, w) \<leftarrow> json_infos (server (remote_user ''user1'')
         (ListApps (created_exactly_at (1700000060 * 10 ^ 9))) w);
       assert_that (length second_apps = 1);
       assert_that (info_id (hd second_apps) = info_id second)
     })"

text \<open>The first request of the test; a creation time that is not a timestamp is rejected by \<open>axum\<close>.\<close>

definition test_list_apps_invalid_filter_rejected :: "libs \<Rightarrow> bool" where
  "test_list_apps_invalid_filter_rejected L = passes (
     case create_test_server L of (server, w) \<Rightarrow> do {
       assert_that (get_apps_query L server (remote_user ''user1'') ''state=NOT_A_STATE'' w = Err (StatusErr BAD_REQUEST));
       assert_that (get_apps_query L server (remote_user ''user1'') ''created_at_after=not-a-timestamp'' w
         = Err (StatusErr BAD_REQUEST))
     })"

section \<open>The tests pass\<close>

lemmas api_test_eval = request_eval Let_def callback_request_def one_running_one_deleted_def
  set_created_at_def created_exactly_at_def

lemma test_routes_passes: "uuids_ok L \<Longrightarrow> user_ok L \<Longrightarrow> test_routes L"
  by (frule current_user, erule exE) (simp add: test_routes_def uuids_ok_def api_test_eval)

lemma test_users_passes: "test_users L"
  by (simp add: test_users_def api_test_eval)

lemma test_create_app_with_name_passes: "user_ok L \<Longrightarrow> test_create_app_with_name L"
  by (frule current_user, erule exE) (simp add: test_create_app_with_name_def api_test_eval)

lemma test_delete_app_marks_finished_passes: "user_ok L \<Longrightarrow> test_delete_app_marks_finished L"
  by (frule current_user, erule exE) (simp add: test_delete_app_marks_finished_def api_test_eval)

lemma test_ui_url_rendering_passes: "uuids_ok L \<Longrightarrow> render_ok L \<Longrightarrow> test_ui_url_rendering L"
  by (simp add: test_ui_url_rendering_def uuids_ok_def template_rendered api_test_eval)

lemma test_log_url_rendering_in_list_passes: "uuids_ok L \<Longrightarrow> render_ok L \<Longrightarrow> test_log_url_rendering_in_list L"
  by (simp add: test_log_url_rendering_in_list_def uuids_ok_def template_rendered api_test_eval)

lemma test_ui_url_rendering_in_list_passes: "uuids_ok L \<Longrightarrow> render_ok L \<Longrightarrow> test_ui_url_rendering_in_list L"
  by (simp add: test_ui_url_rendering_in_list_def uuids_ok_def inj_eq template_rendered api_test_eval)

lemma test_ui_url_none_without_template_passes: "uuids_ok L \<Longrightarrow> test_ui_url_none_without_template L"
  by (simp add: test_ui_url_none_without_template_def uuids_ok_def api_test_eval)

lemma test_list_apps_filters_by_state_passes: "uuids_ok L \<Longrightarrow> test_list_apps_filters_by_state L"
  by (simp add: test_list_apps_filters_by_state_def uuids_ok_def inj_eq api_test_eval
      state_names_trimmed try_from_value_def)

lemma test_list_apps_filters_by_multiple_states_passes:
  "uuids_ok L \<Longrightarrow> test_list_apps_filters_by_multiple_states L"
  by (simp add: test_list_apps_filters_by_multiple_states_def uuids_ok_def inj_eq api_test_eval
      state_names_trimmed try_from_value_def)

lemma test_list_apps_filters_by_created_at_passes: "test_list_apps_filters_by_created_at L"
  by (simp add: test_list_apps_filters_by_created_at_def api_test_eval)

lemma test_list_apps_invalid_filter_rejected_passes:
  assumes "query_ok L"
  shows "test_list_apps_invalid_filter_rejected L"
proof -
  have q: "lib_query L ''state=NOT_A_STATE'' = Ok (no_filter\<lparr>lar_state := Some ''NOT_A_STATE''\<rparr>)"
    "lib_query L ''created_at_after=not-a-timestamp'' = Err BAD_REQUEST"
    using assms [unfolded query_ok_def, THEN conjunct1, rule_format, of "''NOT_A_STATE''"]
      assms [unfolded query_ok_def, THEN conjunct2, rule_format, of "CHR ''n''" "''ot-a-timestamp''"]
    by (simp_all add: no_filter_def)
  show ?thesis
    by (simp add: test_list_apps_invalid_filter_rejected_def get_apps_query_def q api_test_eval state_names_trimmed
        try_from_value_def)
qed

end
