(* ===== verification/Unit_Tests.thy ===== *)
theory Unit_Tests
  imports Test_Fixtures
begin

text \<open>
  The tests of the launcher, the proxy and the maintenance commands (\<open>server/src/launcher.rs\<close>,
  \<open>proxy.rs\<close>, \<open>lib.rs\<close>, their modules \<open>test\<close>), and that each of them passes on the model for all
  libraries that behave as documented.
\<close>

section \<open>Tests of the launcher\<close>

text \<open>\<open>assert_eq!\<close> on two \<open>HashMap\<close>s does not see the order of the entries.\<close>

definition same_map :: "HashMap \<Rightarrow> HashMap \<Rightarrow> bool" where
  "same_map a b \<longleftrightarrow> hm_wf a \<and> hm_wf b \<and> set a = set b"

definition test_build_config :: bool where
  "test_build_config =
     (let version = SparkVersion_default\<lparr>
            sv_name := ''default'',
            sv_default_configs := Some [(''a'', ''default''), (''b'', ''default'')],
            sv_merge_configs := Some [(''c'', ''merge''), (''e'', ''merge-only'')],
            sv_override_configs := Some [(''d'', ''override'')]\<rparr>;
          user_config = [(''a'', ''user''), (''c'', ''user''), (''d'', ''user'')];
          built = build_conf version user_config
      in same_map built
           [(''a'', ''user''), (''b'', ''default''), (''c'', ''user,merge''), (''d'', ''override''),
            (''e'', ''merge-only'')])"

text \<open>The launcher of three of the tests.\<close>

definition test_launcher :: SparkLauncher where
  "test_launcher = \<lparr>
     versions = [SparkVersion_default\<lparr>sv_name := ''default'', sv_home := ''/opt/spark''\<rparr>],
     callback_addr = ''http://localhost:8100'', sl_launch_timeout = 60, sl_session_timeout = 60,
     sl_plugin_path = ''/path/to/plugin'', plugin_temp_path = None\<rparr>"

text \<open>\<open>slice::as_chunks::<2>\<close>.\<close>

fun as_chunks2 :: "'a list \<Rightarrow> ('a \<times> 'a) list \<times> 'a list" where
  "as_chunks2 (x # y # xs) = (case as_chunks2 xs of (pairs, rest) \<Rightarrow> ((x, y) # pairs, rest))"
| "as_chunks2 xs = ([], xs)"

definition conf_pair :: "string \<Rightarrow> string \<Rightarrow> string \<times> string" where
  "conf_pair key value = (''--conf'', key @ ''='' @ value)"

definition test_build_command :: "libs \<Rightarrow> bool" where
  "test_build_command L =
     (case build_submit_command (lib_hash_order L) test_launcher (hd (versions test_launcher)) 1 None
             ''user'' ''abcd'' [] None of
        Err e \<Rightarrow> False
      | Ok (submit, args) \<Rightarrow>
          submit = ''/opt/spark/bin/spark-submit'' \<and>
          (case as_chunks2 args of (pairs, script) \<Rightarrow>
             script = [''/path/to/plugin''] \<and>
             conf_pair APP_NAME_CONFIG ''spark-plug-session-1'' \<in> set pairs \<and>
             conf_pair TOKEN_CONFIG ''abcd'' \<in> set pairs \<and>
             conf_pair CALLBACK_CONFIG ''http://localhost:8100'' \<in> set pairs \<and>
             conf_pair TIMEOUT_CONFIG ''60'' \<in> set pairs \<and>
             conf_pair LISTENER_CONFIG LISTENER_CLASS \<in> set pairs \<and>
             conf_pair INTERCEPTOR_CONFIG INTERCEPTOR_CLASS \<in> set pairs \<and>
             conf_pair GRPC_PORT_CONFIG ''0'' \<in> set pairs \<and>
             (''--class'', SERVER_CLASS) \<in> set pairs))"

definition test_build_command_uses_explicit_app_name :: "libs \<Rightarrow> bool" where
  "test_build_command_uses_explicit_app_name L =
     (case build_submit_command (lib_hash_order L) test_launcher (hd (versions test_launcher)) 1
             (Some ''custom-app-name'') ''user'' ''abcd'' [] None of
        Err e \<Rightarrow> False
      | Ok (submit, args) \<Rightarrow>
          conf_pair APP_NAME_CONFIG ''custom-app-name'' \<in> set (fst (as_chunks2 args)))"

definition strip_prefix :: "string \<Rightarrow> string \<Rightarrow> string option" where
  "strip_prefix p s = (if starts_with s p then Some (drop (length p) s) else None)"

fun find_map :: "('a \<Rightarrow> 'b option) \<Rightarrow> 'a list \<Rightarrow> 'b option" where
  "find_map f [] = None"
| "find_map f (x # xs) = (case f x of Some y \<Rightarrow> Some y | None \<Rightarrow> find_map f xs)"

definition test_build_command_merges_python_environment_into_archives_config :: "libs \<Rightarrow> bool" where
  "test_build_command_merges_python_environment_into_archives_config L =
     (case build_submit_command (lib_hash_order L) test_launcher (hd (versions test_launcher)) 1 None
             ''user'' ''abcd'' [(''spark.archives'', ''s3://bucket/archive.tar.gz#archive'')]
             (Some ''/tmp/python-environment.tgz'') of
        Err e \<Rightarrow> False
      | Ok (submit, args) \<Rightarrow>
          find_map (strip_prefix ''spark.archives='') args =
            Some ''s3://bucket/archive.tar.gz#archive,/tmp/python-environment.tgz#environment'' \<and>
          \<not> list_ex (\<lambda>arg. arg = ''--archives'') args)"

definition test_validate_file_configs_rejects_local_paths :: bool where
  "test_validate_file_configs_rejects_local_paths =
     (let configs = hm_insert ''spark.files'' ''/local/path/file.txt'' []
      in \<not> is_ok (validate_file_configs configs))"

definition test_validate_file_configs_rejects_file_protocol :: bool where
  "test_validate_file_configs_rejects_file_protocol =
     (let configs = hm_insert ''spark.files'' ''file:///etc/passwd'' []
      in \<not> is_ok (validate_file_configs configs))"

definition test_validate_file_configs_allows_remote_paths :: bool where
  "test_validate_file_configs_allows_remote_paths =
     (let configs = hm_insert ''spark.files'' ''s3://bucket/file.txt,hdfs://namenode/data'' [];
          configs = hm_insert ''spark.archives'' ''gs://bucket/archive.tar.gz'' configs
      in is_ok (validate_file_configs configs))"

definition test_validate_file_configs_allows_empty_values :: bool where
  "test_validate_file_configs_allows_empty_values = is_ok (validate_file_configs [])"

section \<open>Tests of the maintenance commands\<close>

text \<open>The database of the server that the tests build.\<close>

definition test_server_db :: "libs \<Rightarrow> mem" where
  "test_server_db L =
     snd (create_test_router_with_config L (ProxyConfig_default\<lparr>store := Some ''sqlite::memory:''\<rparr>)
            default_user_auth)"

text \<open>\<open>insert_app\<close>, in a world of the table and the number of UUIDs drawn.\<close>

definition insert_app ::
  "libs \<Rightarrow> State \<Rightarrow> string option \<Rightarrow> DateTimeUtc \<Rightarrow> mem \<times> nat \<Rightarrow> (Model \<times> mem \<times> nat) option" where
  "insert_app L state address t s =
     (case db_insert mem_db
        [(ColCreatedAt, VTime t), (ColUsername, VStr ''test-user''), (ColState, VState state),
         (ColToken, VStr (lib_uuid L (snd s))), (ColAddress, opt_val address), (ColApplicationId, VNull)]
        (fst s) of
        (Err e, d) \<Rightarrow> None
      | (Ok m, d) \<Rightarrow> Some (m, d, Suc (snd s)))"

definition find_by_id :: "int \<Rightarrow> mem \<Rightarrow> Model option option" where
  "find_by_id i d =
     (case db_one mem_db [CEq ColId (VInt i)] d of (Err e, d) \<Rightarrow> None | (Ok m, d) \<Rightarrow> Some m)"

text \<open>The casts \<open>as_secs() as i64\<close> read the clock as a signed number.\<close>

definition test_prune :: "libs \<Rightarrow> bool" where
  "test_prune L = passes (do {
     old \<leftarrow> lib_from_timestamp L (sint (lib_now L) - 120);
     recent \<leftarrow> lib_from_timestamp L (sint (lib_now L) - 10);
     (old_failed, s) \<leftarrow> insert_app L FAILED None old (test_server_db L, 0);
     (old_finished, s) \<leftarrow> insert_app L FINISHED None old s;
     (recent_failed, s) \<leftarrow> insert_app L FAILED None recent s;
     (old_running, s) \<leftarrow> insert_app L RUNNING (Some ''127.0.0.1:1'') old s;
     (case prune mem_db (lib_up L) (Ok (lib_later L)) (lib_from_timestamp L) 60 (fst s) of
        (r, db) \<Rightarrow> do {
          assert_that (is_ok r);
          assert_that (find_by_id (app_id old_failed) db = Some None);
          assert_that (find_by_id (app_id old_finished) db = Some None);
          assert_that (find_by_id (app_id recent_failed) db \<notin> {None, Some None});
          assert_that (find_by_id (app_id old_running) db \<notin> {None, Some None})
        })
   })"

definition test_check :: "libs \<Rightarrow> bool" where
  "test_check L = passes (do {
     now \<leftarrow> lib_from_timestamp L (sint (lib_now L));
     (no_address_running, s) \<leftarrow> insert_app L RUNNING None now (test_server_db L, 0);
     (unreachable_running, s) \<leftarrow> insert_app L RUNNING (Some ''127.0.0.1:9'') now s;
     (launching, s) \<leftarrow> insert_app L LAUNCHING None now s;
     (case check mem_db (lib_up L) (lib_http L) quiet s of
        (r, db, n) \<Rightarrow> do {
          assert_that (is_ok r);
          no_address_after \<leftarrow> Option.bind (find_by_id (app_id no_address_running) db) id;
          assert_that (app_state no_address_after = FAILED);
          assert_that (app_address no_address_after = None);
          unreachable_after \<leftarrow> Option.bind (find_by_id (app_id unreachable_running) db) id;
          assert_that (app_state unreachable_after = FAILED);
          assert_that (app_address unreachable_after = None);
          launching_after \<leftarrow> Option.bind (find_by_id (app_id launching) db) id;
          assert_that (app_state launching_after = LAUNCHING)
        })
   })"

section \<open>The launcher passes\<close>

lemma test_build_config_passes: "test_build_config"
  by (simp add: test_build_config_def same_map_def build_conf_def SparkVersion_default_def hm_extend_def
      hm_insert_def merge_config_def hm_get_def hm_wf_def)

lemma as_chunks2_conf_flags: "as_chunks2 (conf_flags cs @ args) =
   (map (\<lambda>(k, v). conf_pair k v) cs @ fst (as_chunks2 args), snd (as_chunks2 args))"
  by (induction cs) (auto simp: conf_flags_def conf_pair_def split: prod.splits)

lemma set_hash_order: "visits_once it \<Longrightarrow> set (it m) = set m"
  by (metis visits_once_def set_mset_mset)

lemma show_60: "show_nat 60 = ''60''" and show_1: "show_int 1 = ''1''"
  by code_simp+

lemmas command_eval =
  build_submit_command_def validate_file_configs_def file_config_keys_def submit_configs_def build_conf_def
  add_venv_def add_internal_configs_def add_app_name_def test_launcher_def SparkVersion_default_def
  path_join_def starts_with_def hm_extend_def hm_insert_def hm_get_def as_chunks2_conf_flags set_hash_order show_60 show_1
  APP_NAME_CONFIG_def TOKEN_CONFIG_def CALLBACK_CONFIG_def TIMEOUT_CONFIG_def LISTENER_CONFIG_def
  INTERCEPTOR_CONFIG_def GRPC_PORT_CONFIG_def

lemma test_build_command_passes: "visits_once (lib_hash_order L) \<Longrightarrow> test_build_command L"
  by (simp add: test_build_command_def command_eval conf_pair_def)

lemma test_build_command_uses_explicit_app_name_passes:
  "visits_once (lib_hash_order L) \<Longrightarrow> test_build_command_uses_explicit_app_name L"
  by (simp add: test_build_command_uses_explicit_app_name_def command_eval conf_pair_def)

lemma find_map_unique:
  "x \<in> set xs \<Longrightarrow> f x = Some y \<Longrightarrow> (\<And>z. z \<in> set xs \<Longrightarrow> f z = None \<or> f z = Some y) \<Longrightarrow>
   find_map f xs = Some y"
  by (induction xs) (fastforce split: option.splits)+

lemma set_conf_flags: "set (conf_flags cs) = (\<Union>(k, v) \<in> set cs. {''--conf'', k @ ''='' @ v})"
  by (auto simp: conf_flags_def)

lemma file_segments_trimmed:
  "trim ''s3://bucket/archive.tar.gz#archive'' = ''s3://bucket/archive.tar.gz#archive''"
  "trim ''/local/path/file.txt'' = ''/local/path/file.txt''"
  "trim ''file:///etc/passwd'' = ''file:///etc/passwd''"
  "trim ''s3://bucket/file.txt'' = ''s3://bucket/file.txt''"
  "trim ''hdfs://namenode/data'' = ''hdfs://namenode/data''"
  "trim ''gs://bucket/archive.tar.gz'' = ''gs://bucket/archive.tar.gz''"
  by (simp_all add: trim_graphic_id graphic_def)

lemma find_conf:
  assumes "visits_once it" and "(key, val) \<in> set cs"
    and "\<And>k v. (k, v) \<in> set cs \<Longrightarrow> (k, v) = (key, val) \<or> \<not> starts_with (k @ ''='' @ v) p"
    and "\<not> starts_with ''--conf'' p" and "list_all (\<lambda>a. \<not> starts_with a p) args" and p: "p = key @ ''=''"
  shows "find_map (strip_prefix p) (conf_flags (it cs) @ args) = Some val"
proof (rule find_map_unique)
  show "key @ ''='' @ val \<in> set (conf_flags (it cs) @ args)"
    using assms(1,2) by (auto simp: set_conf_flags set_hash_order)
  show v: "strip_prefix p (key @ ''='' @ val) = Some val"
    by (simp add: strip_prefix_def starts_with_def p)
  fix z
  assume "z \<in> set (conf_flags (it cs) @ args)"
  then consider "z = ''--conf''" | k v where "(k, v) \<in> set cs" "z = k @ ''='' @ v" | "z \<in> set args"
    using set_hash_order [OF assms(1)] by (auto simp: set_conf_flags)
  then show "strip_prefix p z = None \<or> strip_prefix p z = Some val"
  proof cases
    case (2 k v)
    from assms(3) [OF 2(1)] 2(2) v show ?thesis by (auto simp: strip_prefix_def split: if_splits)
  qed (use assms(4,5) in \<open>auto simp: strip_prefix_def list_all_iff\<close>)
qed

lemma test_build_command_merges_python_environment_into_archives_config_passes:
  assumes "visits_once (lib_hash_order L)"
  shows "test_build_command_merges_python_environment_into_archives_config L"
proof -
  have "find_map (strip_prefix ''spark.archives='') (conf_flags (lib_hash_order L cs) @ args) = Some v"
    if "(''spark.archives'', v) \<in> set cs" "list_all (\<lambda>a. \<not> starts_with a ''spark.archives='') args"
      "\<forall>(k, x) \<in> set cs. (k, x) = (''spark.archives'', v) \<or> \<not> starts_with (k @ ''='' @ x) ''spark.archives=''"
    for cs args v
    using that by (intro find_conf [OF assms, where key = "''spark.archives''"]) (auto simp: starts_with_def)
  then show ?thesis using assms
    by (simp add: test_build_command_merges_python_environment_into_archives_config_def command_eval
        set_conf_flags list_ex_iff file_segments_trimmed SERVER_CLASS_def)
qed

lemmas validate_eval = validate_file_configs_def file_config_keys_def hm_insert_def hm_get_def
  file_segments_trimmed starts_with_def

lemma test_validate_file_configs_rejects_local_paths_passes: "test_validate_file_configs_rejects_local_paths"
  by (simp add: test_validate_file_configs_rejects_local_paths_def validate_eval)

lemma test_validate_file_configs_rejects_file_protocol_passes: "test_validate_file_configs_rejects_file_protocol"
  by (simp add: test_validate_file_configs_rejects_file_protocol_def validate_eval)

lemma test_validate_file_configs_allows_remote_paths_passes: "test_validate_file_configs_allows_remote_paths"
  by (simp add: test_validate_file_configs_allows_remote_paths_def validate_eval)

lemma test_validate_file_configs_allows_empty_values_passes: "test_validate_file_configs_allows_empty_values"
  by (simp add: test_validate_file_configs_allows_empty_values_def validate_eval)

section \<open>The maintenance commands pass\<close>

lemma test_server_db_fresh: "test_server_db L = fresh_db"
  by (simp add: test_server_db_def create_test_router_with_config_def)

lemmas maintenance_eval = test_server_db_fresh insert_app_def find_by_id_def mem_db_def with_fault_def mem_insert_def fresh_id_def
  fresh_db_def blank_row_def matching_def assert_that_def passes_def ensure_db_def migrated_def
  Let_def

lemma test_prune_passes:
  assumes "migrated L" and "clock_ok L"
  shows "test_prune L"
proof -
  have t: "sint (lib_now L) = uint (lib_now L)" "sint (lib_later L) = uint (lib_later L)"
    using assms(2) by (auto simp: clock_ok_def sint_u64)
  have cut: "prune_cutoff_secs (lib_later L) 60 = uint (lib_later L) - 60"
    using assms(2) by (simp add: prune_cutoff_secs_def saturating_sub_i64_def t clock_ok_def)
  show ?thesis using assms
    by (simp add: test_prune_def clock_ok_def t cut maintenance_eval prune_def prune_filter_def delete_rows_def)
qed

lemma health_attempts_fail:
  assumes "\<And>n. \<not> is_ok (fst (health_probe http a t (d, n)))"
  shows "\<exists>e n'. health_attempts http quiet a t (Suc k) err (d, n) = (FallThrough (Some e), d, n')"
proof (induction k arbitrary: err n)
  case 0
  obtain r d' n' where p: "health_probe http a t (d, n) = (r, d', n')" by (metis prod_cases3)
  then have "d' = d" by (auto simp: health_probe_def split: prod.splits)
  with p assms [of n] show ?case by (cases r) auto
next
  case (Suc k)
  obtain r d' n' where p: "health_probe http a t (d, n) = (r, d', n')" by (metis prod_cases3)
  then have "d' = d" by (auto simp: health_probe_def split: prod.splits)
  with p assms [of n] Suc [of _ n'] show ?case by (cases r) (auto simp: quiet_def simp del: health_attempts.simps(1))
qed

lemma discard_unhealthy:
  assumes "discard_closed L"
  shows "\<exists>e n'. check_application_health (lib_http L) quiet ''127.0.0.1:9'' t (d, n) = (Err e, d, n')"
proof -
  have "\<not> is_ok (fst (health_probe (lib_http L) ''127.0.0.1:9'' t (d, n)))" for n
    using assms
    by (auto simp: discard_closed_def health_probe_def send_session_message_def split: Result.splits prod.splits)
       (metis fst_conv is_ok.simps(1))
  from health_attempts_fail [OF this, of HEALTH_CHECK_RETRIES None n] show ?thesis
    unfolding check_application_health_def by auto
qed

definition checked_row :: "libs \<Rightarrow> nat \<Rightarrow> State \<Rightarrow> string option \<Rightarrow> Model" where
  "checked_row L k state address = \<lparr>app_id = int (Suc k), created_at = uint (lib_now L) * 10 ^ 9,
     username = ''test-user'', app_name = None, app_state = state, app_token = lib_uuid L k,
     app_address = address, application_id = None\<rparr>"

lemma test_check_passes:
  assumes "migrated L" and "clock_ok L" and "discard_closed L"
  shows "test_check L"
proof -
  have t: "lib_from_timestamp L (sint (lib_now L)) = Some (uint (lib_now L) * 10 ^ 9)"
    using assms(2) by (auto simp: clock_ok_def sint_u64)
  let ?db = "\<lambda>ms. \<lparr>table = ms, next_id = 4, mem_now = 0, faults = []\<rparr>"
  let ?a = "checked_row L 0" and ?b = "checked_row L (Suc 0)" and ?c = "checked_row L 2 LAUNCHING None"
  let ?d0 = "?db [?a RUNNING None, ?b RUNNING (Some ''127.0.0.1:9''), ?c]"
  let ?d1 = "?db [?a FAILED None, ?b RUNNING (Some ''127.0.0.1:9''), ?c]"
  let ?d2 = "?db [?a FAILED None, ?b FAILED None, ?c]"
  have one: "db_update mem_db 1 check_failed_assigns ?d0 = (Ok (?a FAILED None), ?d1)"
    and two: "db_update mem_db 2 check_failed_assigns ?d1 = (Ok (?b FAILED None), ?d2)"
    by (simp_all add: mem_db_def with_fault_def mem_update_def matching_def update_rows_def checked_row_def
        check_failed_assigns_def)
  have all: "db_all mem_db [CEq ColState (VState RUNNING)] ?d0 =
      (Ok [?a RUNNING None, ?b RUNNING (Some ''127.0.0.1:9'')], ?d0)"
    by (simp add: mem_db_def with_fault_def matching_def checked_row_def)
  have ids: "app_id (?a RUNNING None) = 1" "app_address (?a RUNNING None) = None"
    "app_id (?b s x) = 2" "app_address (?b s x) = x" for s x by (simp_all add: checked_row_def)
  obtain e n' where "check_application_health (lib_http L) quiet ''127.0.0.1:9'' (app_token (?b RUNNING (Some ''127.0.0.1:9'')))
      (?d1, 3) = (Err e, ?d1, n')"
    using discard_unhealthy [OF assms(3), of "app_token (?b RUNNING (Some ''127.0.0.1:9''))" ?d1 3] by auto
  then have run: "check mem_db (lib_up L) (lib_http L) quiet (?d0, 3) = (Ok (), ?d2, n')"
    using assms(1) by (simp add: check_def ensure_db_def migrated_def all one two ids)
  have ins: "insert_app L RUNNING None (uint (lib_now L) * 10 ^ 9) (fresh_db, 0) =
      Some (?a RUNNING None, \<lparr>table = [?a RUNNING None], next_id = 2, mem_now = 0, faults = []\<rparr>, 1)"
    "insert_app L RUNNING (Some ''127.0.0.1:9'') (uint (lib_now L) * 10 ^ 9)
       (\<lparr>table = [?a RUNNING None], next_id = 2, mem_now = 0, faults = []\<rparr>, 1) =
      Some (?b RUNNING (Some ''127.0.0.1:9''), \<lparr>table = [?a RUNNING None, ?b RUNNING (Some ''127.0.0.1:9'')],
        next_id = 3, mem_now = 0, faults = []\<rparr>, 2)"
    "insert_app L LAUNCHING None (uint (lib_now L) * 10 ^ 9)
       (\<lparr>table = [?a RUNNING None, ?b RUNNING (Some ''127.0.0.1:9'')], next_id = 3, mem_now = 0, faults = []\<rparr>, 2) =
      Some (?c, ?d0, 3)"
    by (simp_all add: maintenance_eval checked_row_def)
  show ?thesis
    unfolding test_check_def t test_server_db_fresh
    by (simp only: ins run Option.bind.simps prod.simps)
       (simp add: find_by_id_def mem_db_def with_fault_def checked_row_def assert_that_def passes_def)
qed

end
