(* ===== verification/Proxy_Tests.thy ===== *)
theory Proxy_Tests
  imports Test_Fixtures
begin

text \<open>
  The tests of the proxy (\<open>server/src/proxy.rs\<close>, module \<open>test\<close>), and that each of them passes on the
  model. The test of requests in flight runs on the interleaved tasks of \<open>Proxy_Tasks\<close>, the tests of
  the cache on \<open>sender_for\<close> over the channels of those tasks.
\<close>

section \<open>Tests\<close>

definition test_extract_bearer_token :: bool where
  "test_extract_bearer_token \<longleftrightarrow>
     extract_bearer_token (header_map_of [(''authorization'', ''Bearer test-token'')]) = Ok ''test-token''"

definition test_extract_bearer_token_rejects_invalid_headers :: bool where
  "test_extract_bearer_token_rejects_invalid_headers \<longleftrightarrow>
     extract_bearer_token (header_map_of []) = Err MissingAuthorizationHeader \<and>
     extract_bearer_token (header_map_of [(''authorization'', ''Basic abc123'')]) =
       Err InvalidAuthorizationScheme"

definition test_proxy_error_response_maps_status :: "libs \<Rightarrow> bool" where
  "test_proxy_error_response_maps_status L =
     (let respond = proxy_error_response (lib_from_str L);
          not_found = respond ApplicationNotFound;
          launching = respond (InvalidApplicationState LAUNCHING);
          missing_address = respond MissingApplicationAddress;
          auth = respond (Authorization ''missing subject'')
      in status not_found = 200 \<and>
         hm_get (resp_headers not_found) ''content-type'' = Some ''application/grpc'' \<and>
         hm_get (resp_headers not_found) ''grpc-status'' = Some ''5'' \<and>
         hm_get (resp_headers not_found) ''grpc-message'' =
           Some ''application not found for provided token'' \<and>
         status launching = 200 \<and>
         hm_get (resp_headers launching) ''grpc-status'' = Some ''14'' \<and>
         status missing_address = 200 \<and>
         hm_get (resp_headers missing_address) ''grpc-status'' = Some ''14'' \<and>
         hm_get (resp_headers auth) ''grpc-status'' = Some ''16'' \<and>
         hm_get (resp_headers auth) ''grpc-message'' = Some ''authorization error: missing subject'')"

definition test_percent_encode_grpc_message :: bool where
  "test_percent_encode_grpc_message \<longleftrightarrow>
     percent_encode_grpc_message (''upstream failed: bad'' @ [char_of (10::nat)] @ ''state % value'') =
       ''upstream failed: bad%0Astate %25 value''"

subsection \<open>The cache\<close>

text \<open>The tests use the database of a test router.\<close>

definition proxy_test_db :: "libs \<Rightarrow> mem" where
  "proxy_test_db L = snd (create_test_router_with_config L ProxyConfig_default default_user_auth)"

definition no_channels :: "nat net" where
  "no_channels = \<lparr>net_chans = [], net_next_rx = 0, net_answers = [], net_inflight = []\<rparr>"

definition insert_session :: "State \<Rightarrow> string \<Rightarrow> string option \<Rightarrow> mem \<Rightarrow> (Model \<times> mem) option" where
  "insert_session state token address d =
     (case db_insert mem_db
        ([(ColUsername, VStr ''test-user''), (ColState, VState state), (ColToken, VStr token)]
         @ (case address of None \<Rightarrow> [] | Some a \<Rightarrow> [(ColAddress, VStr a)])) d of
        (Err e, d) \<Rightarrow> None
      | (Ok m, d) \<Rightarrow> Some (m, d))"

text \<open>\<open>cache.sender_for(token).await\<close> while no other task runs.\<close>

definition cached_sender ::
  "string \<Rightarrow> mem \<Rightarrow> connections \<times> nat net \<Rightarrow> (nat, Error) Result \<times> connections \<times> nat net" where
  "cached_sender token d s =
     (case sender_for mem_db task_ops (\<lambda>w. w) token d (fst s) (snd s) of
        (r, d, conns, n) \<Rightarrow> (r, conns, n))"

fun unwrapped :: "('a, 'e) Result \<times> 's \<Rightarrow> ('a \<times> 's) option" where
  "unwrapped (Ok x, s) = Some (x, s)"
| "unwrapped (Err e, s) = None"

definition test_upstream_connections_are_cached_by_token :: "libs \<Rightarrow> bool" where
  "test_upstream_connections_are_cached_by_token L = passes (do {
     (app, db) \<leftarrow> insert_session LAUNCHING ''first-token'' None (proxy_test_db L);
     (app, db) \<leftarrow> insert_session LAUNCHING ''second-token'' None db;
     (first, s) \<leftarrow> unwrapped (cached_sender ''first-token'' db ([], no_channels));
     (first_again, s) \<leftarrow> unwrapped (cached_sender ''first-token'' db s);
     (second, s) \<leftarrow> unwrapped (cached_sender ''second-token'' db s);
     assert_that (first = first_again);
     assert_that (first \<noteq> second)
   })"

definition test_unknown_tokens_are_not_cached :: "libs \<Rightarrow> bool" where
  "test_unknown_tokens_are_not_cached L =
     (case cached_sender ''unknown-token'' (proxy_test_db L) ([], no_channels) of
        (result, connections, n) \<Rightarrow> result = Err ApplicationNotFound \<and> connections = [])"

text \<open>A weak sender upgrades as long as some sender of its channel is left.\<close>

definition test_upstream_connection_can_be_invalidated :: "libs \<Rightarrow> bool" where
  "test_upstream_connection_can_be_invalidated L = passes (do {
     (app, db) \<leftarrow> insert_session LAUNCHING ''test-token'' None (proxy_test_db L);
     (sender, connections, n) \<leftarrow> unwrapped (cached_sender ''test-token'' db ([], no_channels));
     let connections = invalidate ''test-token'' connections;
     assert_that (hm_get connections ''test-token'' = None);
     assert_that (no_sender sender
       ((sys_init table db ()) \<lparr>sys_cache := connections, sys_net := n\<rparr>))
   })"

subsection \<open>Requests in flight\<close>

definition execute_plan :: "string \<Rightarrow> Request" where
  "execute_plan token = \<lparr>req_headers = header_map_of [(''authorization'', ''Bearer '' @ token)],
     req_path = ''/spark.connect.SparkConnectService/ExecutePlan'',
     path_and_query = Some ''/spark.connect.SparkConnectService/ExecutePlan'', req_uri = []\<rparr>"

definition empty_response :: Response where
  "empty_response = \<lparr>status = 200, resp_headers = [], body = []\<rparr>"

text \<open>Both requests are sent, the dispatcher takes six turns, and only then, when both have reached
  the session (its barrier waits for two), the answers come and both requests complete.\<close>

definition test_multiple_upstream_requests_can_be_in_flight :: "libs \<Rightarrow> bool" where
  "test_multiple_upstream_requests_can_be_in_flight L = passes (do {
     let token = lib_uuid L 0;
     (app, db) \<leftarrow> insert_session RUNNING token (Some (lib_listener L)) (proxy_test_db L);
     let request = execute_plan token;
     assert_that (starts_with (req_path request) ''/spark.connect.SparkConnectService'');
     (es, s) \<leftarrow> replay empty_response (lib_h2 L)
       ([Arrives request] @ replicate 4 (Runs 0) @ [Arrives request] @ replicate 2 (Runs 1)
        @ replicate 6 (Dispatches 0 Continues)) (sys_init table db 0);
     assert_that (length (net_inflight (sys_net s)) = 2 \<and> net_answers (sys_net s) = []);
     (es, s) \<leftarrow> replay empty_response (lib_h2 L) [Responds 0, Responds 1, Runs 0, Runs 1] s;
     assert_that (map snd (sys_tasks s) = [Completed (Ok empty_response), Completed (Ok empty_response)])
   })"

definition test_resolve_upstream_connection_marks_application_failed_after_retries :: "libs \<Rightarrow> bool" where
  "test_resolve_upstream_connection_marks_application_failed_after_retries L = passes (do {
     let token = lib_uuid L 0;
     (app, db) \<leftarrow> insert_session RUNNING token (Some ''127.0.0.1:9'') (proxy_test_db L);
     (error, db, n) \<leftarrow> resolve_upstream_connection mem_db (lib_h2 L) quiet (\<lambda>_. False) token (db, 0);
     assert_that (case error of Err (UpstreamConnect e) \<Rightarrow> True | _ \<Rightarrow> False);
     found \<leftarrow> (case db_one mem_db [CEq ColId (VInt (app_id app))] db of (Ok m, d) \<Rightarrow> m | (Err e, d) \<Rightarrow> None);
     assert_that (app_state found = FAILED);
     assert_that (app_address found = None)
   })"

section \<open>The tests pass\<close>

lemma test_extract_bearer_token_passes: "test_extract_bearer_token"
  by (simp add: test_extract_bearer_token_def extract_bearer_token_def header_map_of_def visible_ascii_def)

lemma test_extract_bearer_token_rejects_invalid_headers_passes:
  "test_extract_bearer_token_rejects_invalid_headers"
  by (simp add: test_extract_bearer_token_rejects_invalid_headers_def extract_bearer_token_def
      header_map_of_def visible_ascii_def)

lemma test_percent_encode_grpc_message_passes: "test_percent_encode_grpc_message"
  unfolding test_percent_encode_grpc_message_def by code_simp

lemma test_proxy_error_response_maps_status_passes:
  assumes "accepts_visible_ascii (lib_from_str L)"
  shows "test_proxy_error_response_maps_status L"
proof -
  have p: "percent_encode_grpc_message ''application not found for provided token'' =
      ''application not found for provided token''"
    "percent_encode_grpc_message ''authorization error: missing subject'' =
      ''authorization error: missing subject''" by code_simp+
  have f: "lib_from_str L ''application not found for provided token'' =
      Ok ''application not found for provided token''"
    "lib_from_str L ''authorization error: missing subject'' = Ok ''authorization error: missing subject''"
    using assms by (simp_all add: accepts_visible_ascii_def printable_def)
  show ?thesis
    by (simp add: test_proxy_error_response_maps_status_def proxy_error_response_def Let_def hm_get_def p f
        del: percent_encode_grpc_message.simps)
qed

lemma proxy_test_db_fresh: "proxy_test_db L = fresh_db"
  by (simp add: proxy_test_db_def create_test_router_with_config_def)

lemmas cache_eval = insert_session_def cached_sender_def sender_for_def open_sender_def by_token_def
  sender_for_insert_def hm_get_def hm_insert_def task_ops_def no_channels_def chan_at_def put_chan_def
  mem_db_def with_fault_def mem_insert_def fresh_id_def fresh_db_def proxy_test_db_fresh blank_row_def assert_that_def passes_def
  Let_def

lemma test_upstream_connections_are_cached_by_token_passes: "test_upstream_connections_are_cached_by_token L"
  by (simp add: test_upstream_connections_are_cached_by_token_def cache_eval)

lemma test_unknown_tokens_are_not_cached_passes: "test_unknown_tokens_are_not_cached L"
  by (simp add: test_unknown_tokens_are_not_cached_def cache_eval)

lemma test_upstream_connection_can_be_invalidated_passes: "test_upstream_connection_can_be_invalidated L"
  by (simp add: test_upstream_connection_can_be_invalidated_def cache_eval invalidate_def hm_remove_def
      no_sender_def sys_init_def)

lemma connect_attempts_refused:
  assumes "\<And>n. \<not> is_ok (fst (tcp_connect h2 a n))"
  shows "\<exists>e n'. connect_attempts h2 quiet a (Suc k) err (d, n) = (FallThrough (Some (UpstreamConnect e)), d, n')"
proof (induction k arbitrary: err n)
  case 0
  obtain r n' where "tcp_connect h2 a n = (r, n')" by (metis surj_pair)
  with assms [of n] show ?case by (cases r) (auto simp: connect_upstream_def)
next
  case (Suc k)
  obtain r n' where "tcp_connect h2 a n = (r, n')" by (metis surj_pair)
  with assms [of n] Suc [of _ n'] show ?case
    by (cases r) (auto simp: connect_upstream_def quiet_def simp del: connect_attempts.simps(1))
qed

lemma test_resolve_upstream_connection_marks_application_failed_after_retries_passes:
  assumes "discard_closed L"
  shows "test_resolve_upstream_connection_marks_application_failed_after_retries L"
proof -
  let ?row = "\<lambda>st a. \<lparr>app_id = 1, created_at = 0, username = ''test-user'', app_name = None, app_state = st,
    app_token = lib_uuid L 0, app_address = a, application_id = None\<rparr>"
  let ?d = "\<lparr>table = [?row RUNNING (Some ''127.0.0.1:9'')], next_id = 2, mem_now = 0, faults = []\<rparr>"
  obtain e n where "connect_attempts (lib_h2 L) quiet ''127.0.0.1:9'' (Suc MAX_UPSTREAM_CONNECT_RETRIES) None (?d, 0) =
      (FallThrough (Some (UpstreamConnect e)), ?d, n)"
    using assms connect_attempts_refused [of "lib_h2 L" "''127.0.0.1:9''" MAX_UPSTREAM_CONNECT_RETRIES None ?d 0]
    by (auto simp: discard_closed_def)
  then have "connect_with_retries mem_db (lib_h2 L) quiet (lib_uuid L 0) ''127.0.0.1:9'' (?d, 0) =
      (Err (UpstreamConnect e), ?d\<lparr>table := [?row FAILED None]\<rparr>, n)"
    by (simp add: connect_with_retries_def mark_application_failed_def mem_db_def with_fault_def
        mem_update_many_def update_rows_def failed_assigns_def by_token_def)
  moreover have "resolve_upstream_address mem_db quiet (\<lambda>_. False) (lib_uuid L 0) (?d, 0 :: nat) =
      Some (Ok ''127.0.0.1:9'', ?d, 0)"
    by (subst resolve_upstream_address.simps) (simp add: mem_db_def with_fault_def by_token_def)
  moreover have "insert_session RUNNING (lib_uuid L 0) (Some ''127.0.0.1:9'') (proxy_test_db L) =
      Some (?row RUNNING (Some ''127.0.0.1:9''), ?d)"
    by (simp add: cache_eval)
  ultimately show ?thesis
    by (simp add: test_resolve_upstream_connection_marks_application_failed_after_retries_def Let_def
        resolve_upstream_connection_def assert_that_def passes_def mem_db_def with_fault_def)
qed

lemma is_ok_fst: "is_ok (fst p) \<longleftrightarrow> (\<exists>x s. p = (Ok x, s))"
  by (cases p; cases "fst p") auto

lemma execute_plan_token:
  "list_all visible_ascii token \<Longrightarrow> token \<noteq> [] \<Longrightarrow> extract_bearer_token (req_headers (execute_plan token)) = Ok token"
  by (simp add: extract_bearer_token_def execute_plan_def header_map_of_def visible_ascii_def)

lemma test_multiple_upstream_requests_can_be_in_flight_passes:
  assumes "uuids_ok L" and "listener_open L"
  shows "test_multiple_upstream_requests_can_be_in_flight L"
proof -
  obtain st nt where tcp: "\<And>n. tcp_connect (lib_h2 L) (lib_listener L) n = (Ok (st n), nt n)"
    using assms(2) unfolding listener_open_def is_ok_fst by metis
  obtain x nx where hs: "\<And>c n. h2_handshake (lib_h2 L) c n = (Ok (x c n), nx c n)"
    using assms(2) unfolding listener_open_def is_ok_fst by metis
  obtain u nr where ready: "\<And>y n. h2_ready (lib_h2 L) y n = (Ok (u y n), nr y n)"
    using assms(2) unfolding listener_open_def is_ok_fst by metis
  obtain uri where uri: "parse_uri (lib_h2 L) (''http://'' @ lib_listener L @ ''/spark.connect.SparkConnectService/ExecutePlan'') = Ok uri"
    using assms(2) unfolding listener_open_def by (metis Result.exhaust is_ok.simps(2))
  have tok: "extract_bearer_token (req_headers (execute_plan (lib_uuid L 0))) = Ok (lib_uuid L 0)"
    using assms(1) by (intro execute_plan_token) (auto simp: uuids_ok_def)
  have pq: "path_and_query (execute_plan t) = Some ''/spark.connect.SparkConnectService/ExecutePlan''"
    "req_path (execute_plan t) = ''/spark.connect.SparkConnectService/ExecutePlan''" for t
    by (simp_all add: execute_plan_def)
  show ?thesis
    by (simp add: test_multiple_upstream_requests_can_be_in_flight_def cache_eval sys_init_def request_turn_def
        dispatcher_turn_def tok pq starts_with_def new_dispatcher_def eval_nat_numeral no_sender_def waiting_def poll_end_def
        address_answer_def connect_upstream_def forward_request_def after_turn_def net_after_def remains_def
        answer_def tcp hs ready uri [simplified] pending_def queued_def owed_def messages_def split: prod.split)
qed

end
