(* ===== verification/Repository_Tests.thy ===== *)
theory Repository_Tests
  imports Api_Tests Unit_Tests Proxy_Tests
begin

text \<open>
  All unit tests of the server together: the model passes every one of them.
\<close>

section \<open>The tests\<close>

definition repository_tests :: "(string \<times> (libs \<Rightarrow> bool)) list" where
  "repository_tests = [
     (''test_build_config'', \<lambda>L. test_build_config),
     (''test_build_command'', test_build_command),
     (''test_build_command_uses_explicit_app_name'', test_build_command_uses_explicit_app_name),
     (''test_build_command_merges_python_environment_into_archives_config'', test_build_command_merges_python_environment_into_archives_config),
     (''test_validate_file_configs_rejects_local_paths'', \<lambda>L. test_validate_file_configs_rejects_local_paths),
     (''test_validate_file_configs_rejects_file_protocol'', \<lambda>L. test_validate_file_configs_rejects_file_protocol),
     (''test_validate_file_configs_allows_remote_paths'', \<lambda>L. test_validate_file_configs_allows_remote_paths),
     (''test_validate_file_configs_allows_empty_values'', \<lambda>L. test_validate_file_configs_allows_empty_values),
     (''test_prune'', test_prune),
     (''test_check'', test_check),
     (''test_extract_bearer_token'', \<lambda>L. test_extract_bearer_token),
     (''test_extract_bearer_token_rejects_invalid_headers'', \<lambda>L. test_extract_bearer_token_rejects_invalid_headers),
     (''test_proxy_error_response_maps_status'', test_proxy_error_response_maps_status),
     (''test_percent_encode_grpc_message'', \<lambda>L. test_percent_encode_grpc_message),
     (''test_upstream_connections_are_cached_by_token'', test_upstream_connections_are_cached_by_token),
     (''test_unknown_tokens_are_not_cached'', test_unknown_tokens_are_not_cached),
     (''test_upstream_connection_can_be_invalidated'', test_upstream_connection_can_be_invalidated),
     (''test_multiple_upstream_requests_can_be_in_flight'', test_multiple_upstream_requests_can_be_in_flight),
     (''test_resolve_upstream_connection_marks_application_failed_after_retries'', test_resolve_upstream_connection_marks_application_failed_after_retries),
     (''test_routes'', test_routes),
     (''test_users'', test_users),
     (''test_create_app_with_name'', test_create_app_with_name),
     (''test_delete_app_marks_finished'', test_delete_app_marks_finished),
     (''test_ui_url_rendering'', test_ui_url_rendering),
     (''test_log_url_rendering_in_list'', test_log_url_rendering_in_list),
     (''test_ui_url_rendering_in_list'', test_ui_url_rendering_in_list),
     (''test_ui_url_none_without_template'', test_ui_url_none_without_template),
     (''test_list_apps_filters_by_state'', test_list_apps_filters_by_state),
     (''test_list_apps_filters_by_multiple_states'', test_list_apps_filters_by_multiple_states),
     (''test_list_apps_filters_by_created_at'', test_list_apps_filters_by_created_at),
     (''test_list_apps_invalid_filter_rejected'', test_list_apps_invalid_filter_rejected)]"

lemmas tests_pass =
  test_build_config_passes
  test_build_command_passes
  test_build_command_uses_explicit_app_name_passes
  test_build_command_merges_python_environment_into_archives_config_passes
  test_validate_file_configs_rejects_local_paths_passes
  test_validate_file_configs_rejects_file_protocol_passes
  test_validate_file_configs_allows_remote_paths_passes
  test_validate_file_configs_allows_empty_values_passes
  test_prune_passes
  test_check_passes
  test_extract_bearer_token_passes
  test_extract_bearer_token_rejects_invalid_headers_passes
  test_percent_encode_grpc_message_passes
  test_proxy_error_response_maps_status_passes
  test_upstream_connections_are_cached_by_token_passes
  test_unknown_tokens_are_not_cached_passes
  test_upstream_connection_can_be_invalidated_passes
  test_resolve_upstream_connection_marks_application_failed_after_retries_passes
  test_multiple_upstream_requests_can_be_in_flight_passes
  test_routes_passes
  test_users_passes
  test_create_app_with_name_passes
  test_delete_app_marks_finished_passes
  test_ui_url_rendering_passes
  test_log_url_rendering_in_list_passes
  test_ui_url_rendering_in_list_passes
  test_ui_url_none_without_template_passes
  test_list_apps_filters_by_state_passes
  test_list_apps_filters_by_multiple_states_passes
  test_list_apps_filters_by_created_at_passes
  test_list_apps_invalid_filter_rejected_passes

section \<open>Conformance\<close>

text \<open>Every unit test of the server passes on the model, for all UUID generators, template
  engines, header values, hash map orders, clocks and networks that behave as documented.\<close>

lemma repository_tests_pass:
  assumes "libs_ok L"
  shows "list_all (\<lambda>(name, test). test L) repository_tests"
  using assms by (simp add: repository_tests_def libs_ok_def tests_pass)

text \<open>Libraries that behave so.\<close>

definition demo_render :: "string \<Rightarrow> string \<Rightarrow> string option" where
  "demo_render template a =
     (if dropWhile (\<lambda>c. c \<noteq> CHR ''{'') template = ''{{ application_id }}''
      then Some (takeWhile (\<lambda>c. c \<noteq> CHR ''{'') template @ a) else None)"

definition demo_query :: "string \<Rightarrow> (ListApplicationsRequest, StatusCode) Result" where
  "demo_query query =
     (if starts_with query ''state=''
      then Ok \<lparr>lar_state = Some (drop 6 query), lar_created_at_after = None, lar_created_at_before = None\<rparr>
      else Err BAD_REQUEST)"

definition demo_libs :: libs where
  "demo_libs = \<lparr>
     lib_uuid = (\<lambda>k. replicate (Suc k) (CHR ''a'')), lib_render = demo_render,
     lib_http = \<lparr>client_build = Ok (), http_post = (\<lambda>url hs n. (Err ''refused'', n)), error_for_status = (\<lambda>c. Ok ())\<rparr>,
     lib_auth = demo_auth_ops, lib_from_str = Ok,
     lib_h2 = \<lparr>tcp_connect = (\<lambda>a n. (if a = ''127.0.0.1:9'' then Err ''refused'' else Ok 0, n)),
       h2_handshake = (\<lambda>c n. (Ok c, n)), h2_ready = (\<lambda>x n. (Ok (), n)), h2_send = (\<lambda>x req n. (0, n)),
       parse_uri = Ok\<rparr>,
     lib_listener = ''127.0.0.1:4000'', lib_hash_order = rev, lib_up = (\<lambda>ms d. (Ok (), d)),
     lib_from_timestamp = (\<lambda>s. Some (s * 10 ^ 9)), lib_now = 1700000000, lib_later = 1700000001,
     lib_query = demo_query\<rparr>"

lemma demo_libs_ok: "libs_ok demo_libs"
proof -
  have "demo_render (pre @ ''{{ application_id }}'') a = Some (pre @ a)" if "CHR ''{'' \<notin> set pre" for pre a
    using that by (simp add: demo_render_def dropWhile_append takeWhile_append)
  then show ?thesis
    by (auto simp: libs_ok_def uuids_ok_def render_ok_def user_ok_def discard_closed_def listener_open_def
        migrated_def clock_ok_def query_ok_def demo_query_def starts_with_def accepts_visible_ascii_def visits_once_def demo_libs_def demo_auth_ops_def
        visible_ascii_def list_all_iff session_url_def intro!: inj_onI)
qed

lemma repository_tests_pass_demo:
  "list_all (\<lambda>(name, test). test demo_libs) repository_tests"
  by (rule repository_tests_pass [OF demo_libs_ok])

end
