(* ===== verification/Spec2Isabelle.thy ===== *)
theory Spec2Isabelle
  imports Shutdown Proxy_Refinement Client No_Panics Repository_Tests
begin

text \<open>
  Spark Plug (the repository under \<open>src/\<close>) is a server that starts Spark Connect sessions for users and
  proxies their gRPC traffic. A user creates an application over HTTP; the server stores a row with
  a fresh token, starts \<open>spark-submit\<close> with that token, and waits for the session to call back
  with its address. Spark Connect requests that carry the token are then forwarded to the session.
  Deleting the application, or the session's own second callback, ends it. Two maintenance
  commands prune old rows and check whether sessions are alive.

  \<^bold>\<open>Parts and theories.\<close>

  \<^item> \<open>Plug_Prelude\<close>: Rust's \<open>Result\<close>, the string and hash-map operations of the standard library that the
    server uses, and the shape of its two retry loops (locale \<open>bounded_retry\<close>, interpreted on the
    connection loop of the proxy and on the health check).
  \<^item> \<open>Application_Entity\<close> (\<open>server/src/entities/application.rs\<close>): the row type, the states, and the SQL
    statements the server sends as data with their documented meaning.
  \<^item> \<open>App_Store\<close>: the database as the server sees it, a record of statement functions. The locale
    \<open>app_store\<close> states what is relied on (statements are atomic, a failing one changes nothing, a
    succeeding one does what SQL documents); it is interpreted on an in-memory table with a fault
    schedule. Every theorem about the database takes this contract as a hypothesis.
  \<^item> \<open>Migrations\<close> (\<open>server/migration/src\<close>): the statements of both migrations. The locale \<open>ddl_engine\<close> states what
    SQL documents for such statements; with every engine that keeps to it the migrations build exactly
    the table the entity maps, and rolling them back restores the database.
  \<^item> \<open>Proxy_Config\<close> (\<open>server/src/config.rs\<close>), \<open>Proxy_Error\<close> (\<open>server/src/error.rs\<close> and the error response of
    \<open>proxy.rs\<close>), \<open>Auth\<close> (\<open>server/src/auth.rs\<close>; locale \<open>header_map\<close> for the case-insensitive headers of
    the \<open>http\<close> crate): one definition per function, panics as values.
  \<^item> \<open>Launcher\<close> (\<open>server/src/launcher.rs\<close>): version discovery, assembling the Spark configuration, the file
    check, the command line, the Python environment, launching and the launch tracker. The lemmas
    read the command line back as \<open>spark-submit\<close> does, also for keys that contain an equals sign.
  \<^item> \<open>Upstream\<close> (\<open>server/src/proxy.rs\<close>): bearer tokens, the cache of dispatchers (locale
    \<open>dispatcher_runtime\<close> for tokio's channels and tasks), dispatching, the polling loop for the address,
    connection retries, and the dispatcher task.
  \<^item> \<open>Routes\<close> (\<open>server/src/routes.rs\<close>): every handler with every branch, the launch watcher and the router
    with its authorization layers.
  \<^item> \<open>Server\<close> (\<open>server/src/lib.rs\<close>, \<open>main.rs\<close>): building the server, \<open>prune\<close> with its 64-bit casts, \<open>check\<close>, TLS
    loading, the Kerberos task, \<open>main\<close>.
  \<^item> \<open>Shutdown\<close> (\<open>Server::run\<close>, \<open>serve_connection\<close>): the accept loop, the connection tasks and the graceful
    shutdown as a state machine over events, in any order. The receivers of the two \<open>watch\<close> channels are
    counted where the source clones and drops them; the lemmas relate the state of a run to the events
    that led to it and bound the events of a shutdown.
  \<^item> \<open>Lifecycle\<close>: all writing statements of the program as one step relation on the table, with its
    invariant; an abstract specification, the list of applications with the life of each and the
    effect of each statement on it; and the proofs that the handlers of the HTTP API, the launch watcher,
    the proxy, \<open>prune\<close> and \<open>check\<close> only take such steps and have the effects of the specification.
  \<^item> \<open>Proxy_Tasks\<close>, \<open>Proxy_Runs\<close>, \<open>Proxy_Refinement\<close> (\<open>server/src/proxy.rs\<close> again, concurrently): request tasks,
    dispatcher tasks and response tasks cut at their suspension points and interleaved with each
    other, with every statement of \<open>Lifecycle\<close>, with invalidations, with requesters that give up and
    with tasks that die. The runs satisfy end-to-end isolation, conservation of requests, that
    dispatchers never get out of step with their requests, and a bound on the work before an
    answer; run in sequence, the pieces are the handlers of \<open>Upstream\<close>. The locale
    \<open>dispatcher_runtime\<close> is interpreted on this runtime too.
  \<^item> \<open>Client\<close> (\<open>clients/rust/src/lib.rs\<close>): the Rust client.
  \<^item> \<open>No_Panics\<close>: the two panics of the HTTP API are not reached on a server built by \<open>from_config\<close>.
  \<^item> \<open>Test_Fixtures\<close>, \<open>Unit_Tests\<close>, \<open>Proxy_Tests\<close>, \<open>Api_Tests\<close>, \<open>Repository_Tests\<close> (the modules \<open>test_utils\<close> and
    \<open>test\<close> of \<open>lib.rs\<close>, \<open>launcher.rs\<close>, \<open>proxy.rs\<close> and \<open>routes.rs\<close>): the repository's own tests,
    translated request by request onto the model with the libraries as arguments and the in-memory
    table as the database, and the lemma that all of them pass for all libraries that behave as
    documented. They compare the definitions with what the authors of the program expect of it.
  \<^item> This theory: properties that span components (callback to proxy, deletion to proxy, creation to
    session).

  \<^bold>\<open>State and effects.\<close> A handler takes and returns the world: the database, the cache of dispatchers and the
  network with its processes. Fallible code returns \<open>Result\<close> with the error type of the source; a panic is
  a value too. What other tasks do while a task awaits is an argument (\<open>yield\<close> for the cache, \<open>sleep\<close> for
  the loops that wait) that may change the shared state arbitrarily; theorems say what they
  assume of it. Handlers are otherwise run one at a time; \<open>Lifecycle\<close> treats the interleaving of their
  statements. 64-bit and 16-bit integers are words where the source casts or wraps; row keys are
  \<open>int\<close>; times are nanoseconds.

  \<^bold>\<open>Loops.\<close> The polling loop for the address may wait forever, so it is a partial function whose value is
  \<open>None\<close> exactly in that case. The retry loops count their four attempts down. There is no fuel
  elsewhere.

  \<^bold>\<open>Library code\<close> (SeaORM, tokio, hyper, reqwest, axum's matching and extraction, jsonwebtoken, figment,
  minijinja, rustls, chrono, the operating system) is an argument of the definitions that call it,
  with its documented behaviour as named hypotheses; each property with hypotheses has a witness on
  concrete functions.

  \<^bold>\<open>Not modelled:\<close> logging, JSON encoding, the extraction of requests by axum (an argument of the one test
  that exercises it), the command line parser, the delivery of a response body, the Python client and the
  Scala plugin.
\<close>

section \<open>Lemmas across components\<close>

context app_store
begin

text \<open>What the dispatcher reads for a token whose rows all have the same state and address.\<close>

lemma resolve_uniform:
  assumes "\<not> closed s" and "\<And>m. m \<in> set (rows (fst s)) \<Longrightarrow> app_token m = t \<Longrightarrow> app_state m = st \<and> app_address m = a"
    and "t \<in> app_token ` set (rows (fst s))" and "st \<noteq> LAUNCHING"
  shows "\<exists>r s'. resolve_upstream_address db sleep closed t s = Some (r, s') \<and>
     (r = (if st = RUNNING then ok_or a MissingApplicationAddress else Err (InvalidApplicationState st)) \<or>
      (\<exists>e. r = Err (Database e)))"
proof -
  obtain q d where q: "db_one db (by_token t) (fst s) = (q, d)" by (rule prod.exhaust)
  have "q \<noteq> Ok None"
    using assms(3) one_NoneD [of "by_token t" "fst s" d] q by (auto simp: by_token_def)
  then consider (e) e where "q = Err e" | (some) m where "q = Ok (Some m)"
    by (cases q; cases "ok_val q") auto
  then show ?thesis
  proof cases
    case e
    then have "resolve_upstream_address db sleep closed t s = Some (Err (Database e), d, snd s)"
      using assms(1) q by (subst resolve_upstream_address.simps) simp
    then show ?thesis by auto
  next
    case (some m)
    have m: "app_state m = st" "app_address m = a"
      using one_SomeD [of "by_token t" "fst s" m d] q some assms(2) by (auto simp: by_token_def)
    then have "resolve_upstream_address db sleep closed t s =
        Some (if st = RUNNING then ok_or a MissingApplicationAddress else Err (InvalidApplicationState st), d, snd s)"
      using assms(1,4) q some by (subst resolve_upstream_address.simps) simp
    then show ?thesis by blast
  qed
qed

end

section \<open>Properties across components\<close>

text \<open>C6: from callback to proxy. Once the callback of a session has been accepted for a token, a
  dispatcher of that token that looks up its upstream gets exactly the registered address, without
  waiting (or reports a database error).\<close>

theorem callback_then_resolve:
  assumes "app_store (state_db st) rows"
    and "app_callback st t params (d, c, n) = (Ok (), d1, c1, n1)" and "\<not> closed (d1, n1)"
  shows "\<exists>r s'. resolve_upstream_address (state_db st) sleep closed t (d1, n1) = Some (r, s') \<and>
           (r = Ok (acr_address params) \<or> (\<exists>e. r = Err (Database e)))"
proof -
  have rows: "rows d1 = map (\<lambda>m. if app_token m = t
         then m\<lparr>app_address := Some (acr_address params), app_state := RUNNING,
                application_id := Some (acr_application_id params)\<rparr> else m) (rows d)"
    and t: "t \<in> app_token ` set (rows d)"
    using app_store.app_callback_cases [OF assms(1) refl assms(2)] by auto
  have "app_state m = RUNNING \<and> app_address m = Some (acr_address params)"
    if "m \<in> set (rows (fst (d1, n1)))" "app_token m = t" for m
  proof -
    from that(1) obtain x where "m = (if app_token x = t
        then x\<lparr>app_address := Some (acr_address params), app_state := RUNNING,
               application_id := Some (acr_application_id params)\<rparr> else x)"
      unfolding rows fst_conv set_map by (elim imageE)
    with that(2) show ?thesis by (cases "app_token x = t") simp_all
  qed
  moreover have "app_token ` set (rows d1) = app_token ` set (rows d)"
    unfolding rows set_map image_image by (intro image_cong) simp_all
  with t have "t \<in> app_token ` set (rows (fst (d1, n1)))" by simp
  ultimately show ?thesis
    using app_store.resolve_uniform [OF assms(1), of closed "(d1, n1)" t RUNNING "Some (acr_address params)" sleep]
      assms(3) by simp
qed

theorem callback_then_resolve_witness:
  "\<exists>d1 c1 n1 r s'. app_callback demo_st ''t1'' \<lparr>acr_address = ''h:2'', acr_application_id = ''a2''\<rparr> (demo_mem, [], 0)
      = (Ok (), d1, c1, n1) \<and>
     resolve_upstream_address mem_db (\<lambda>k s. s) (\<lambda>s. False) ''t1'' (d1, n1) = Some (r, s') \<and>
     (r = Ok ''h:2'' \<or> (\<exists>e. r = Err (Database e)))"
proof -
  let ?p = "\<lparr>acr_address = ''h:2'', acr_application_id = ''a2''\<rparr>"
  obtain r d1 c1 n1 where run: "app_callback demo_st ''t1'' ?p (demo_mem, [], 0) = (r, d1, c1, n1)"
    by (metis prod_cases4)
  then have ok: "r = Ok ()"
    by (auto simp: app_callback_def demo_st_def mem_db_def with_fault_def mem_update_many_def
        demo_mem_def demo_app_def by_token_def)
  from callback_then_resolve [of demo_st table, unfolded demo_simps, OF mem.app_store_axioms run [unfolded ok],
      of "\<lambda>s. False" "\<lambda>k s. s"] run ok
  show ?thesis by auto
qed

text \<open>C7: from deletion to proxy. After a deletion that found an application, a dispatcher that looks
  up the upstream of its token is refused because the application is finished (or reports a
  database error): with unique tokens, no new connection is opened for a deleted
  application.\<close>

theorem delete_then_resolve:
  assumes "app_store (state_db st) rows" and "rows_inv (rows d)"
    and "delete_app st i u (d, c, n) = (Ok (), d1, c1, n1)" and "\<not> closed (d1, n1)"
  shows "\<exists>m \<in> set (rows d). owns u i m \<and> hm_get c1 (app_token m) = None \<and>
     (\<exists>r s'. resolve_upstream_address (state_db st) sleep closed (app_token m) (d1, n1) = Some (r, s') \<and>
        (r = Err (InvalidApplicationState FINISHED) \<or> (\<exists>e. r = Err (Database e))))"
proof (rule app_store.delete_app_cases [OF assms(1) refl assms(3)], goal_cases)
  case (3 m)
  have uniq: "x = m" if "x \<in> set (rows d)" "app_token x = app_token m" for x
    using assms(2) that 3(1) by (auto simp: rows_inv_def distinct_map inj_on_def)
  have rows: "rows d1 = map (\<lambda>m. if owns u i m then m\<lparr>app_address := None, app_state := FINISHED\<rparr> else m) (rows d)"
    by (rule 3(3))
  have "app_state x = FINISHED \<and> app_address x = None"
    if x: "x \<in> set (rows (fst (d1, n1)))" "app_token x = app_token m" for x
  proof -
    from x(1) obtain y where y: "y \<in> set (rows d)"
      "x = (if owns u i y then y\<lparr>app_address := None, app_state := FINISHED\<rparr> else y)"
      by (auto simp: rows)
    then have "y = m" using uniq x(2) by (auto split: if_splits)
    with y 3(2) show ?thesis by simp
  qed
  moreover have "app_token ` set (rows d1) = app_token ` set (rows d)"
    unfolding rows set_map image_image by (intro image_cong) simp_all
  with 3(1) have "app_token m \<in> app_token ` set (rows (fst (d1, n1)))" by simp
  ultimately have "\<exists>r s'. resolve_upstream_address (state_db st) sleep closed (app_token m) (d1, n1) = Some (r, s') \<and>
        (r = Err (InvalidApplicationState FINISHED) \<or> (\<exists>e. r = Err (Database e)))"
    using app_store.resolve_uniform [OF assms(1), of closed "(d1, n1)" "app_token m" FINISHED None sleep] assms(4)
    by simp
  with 3(1,2,4) show ?case by (intro bexI [of _ m]) (auto simp: invalidate_def hm_simps)
qed simp_all

theorem delete_then_resolve_witness:
  "case delete_app demo_st 1 ''alice'' (demo_mem\<lparr>table := demo_rows\<rparr>, [(''t1'', 7)], 0) of
     (r, d, c, n) \<Rightarrow> r = Ok () \<and> hm_get c ''t1'' = None"
proof -
  let ?d = "demo_mem\<lparr>table := demo_rows\<rparr>"
  obtain r d c n where run: "delete_app demo_st 1 ''alice'' (?d, [(''t1'', 7)], 0) = (r, d, c, n)"
    by (metis prod_cases4)
  then have ok: "r = Ok ()"
    by (auto simp: delete_app_def demo_st_def mem_db_def with_fault_def mem_update_many_def of_user_def
        demo_mem_def demo_rows_def)
  have inv: "rows_inv (table ?d)" by (simp add: rows_inv_def row_ok_def demo_rows_def)
  have tok: "m \<in> set demo_rows \<Longrightarrow> app_token m = ''t1''" for m by (simp add: demo_rows_def)
  from delete_then_resolve [of demo_st table, unfolded demo_simps, OF mem.app_store_axioms inv run [unfolded ok],
      of "\<lambda>s. False" "\<lambda>k s. s"] run ok tok
  show ?thesis by auto
qed

text \<open>C8: from creation to the session. When creating an application succeeds with the Spark launcher,
  then after drawing the token the run built the Python environment that was asked for, started
  \<open>bin/spark-submit\<close> of the requested Spark version (the first one if none was named) with the home of
  that version in \<open>SPARK_HOME\<close>, and started the launch watcher for that very process with the
  configured timeout, and nothing else happened to the network and the processes. From the command
  line Spark reads the token that the caller got and that was stored with the row of the caller,
  and the address of the callback. The hypotheses are those of the launcher: the hash map is
  iterated completely and no configuration key contains an equals sign.\<close>

theorem create_starts_session_with_token:
  assumes "app_store (state_db st) rows" and "state_launcher st = spark_launcher os ops iter l"
    and "create_app st u params (d, c, n) = (Ok info, d', c', n')"
    and "visits_once iter" and "list_all (\<lambda>v. version_wf v \<and> version_plain v) (versions l)"
    and "plain_keys (unwrap_or (car_config params) [])"
  shows "\<exists>n0 version venv n1 args env child n2 m.
     new_v4 st n = (info_token info, n0) \<and>
     version \<in> set (versions l) \<and>
     (case car_version params of None \<Rightarrow> version = hd (versions l) | Some v \<Rightarrow> sv_name version = v) \<and>
     launch_venv os ops version (car_python_packages params) n0 = (Ok venv, n1) \<and>
     spawn ops (path_join (path_join (sv_home version) ''bin'') ''spark-submit'') args env n1 = (Ok child, n2) \<and>
     n' = spawn_watcher st (info_id info) (child, sl_launch_timeout l) n2 \<and>
     hm_get env ''SPARK_HOME'' = Some (sv_home version) \<and>
     hm_get (submit_confs args []) TOKEN_CONFIG = Some (info_token info) \<and>
     hm_get (submit_confs args []) CALLBACK_CONFIG = Some (callback_addr l) \<and>
     rows d' = rows d @ [m] \<and> app_id m = info_id info \<and> app_token m = info_token info \<and> username m = u \<and>
     app_state m = LAUNCHING"
proof -
  obtain token n0 where uuid: "new_v4 st n = (token, n0)" by (rule prod.exhaust)
  obtain m h n2 where row: "rows d' = rows d @ [m]" "app_token m = token" "username m = u" "app_state m = LAUNCHING"
    and info: "application_info st m = Ok info"
    and l: "launch os ops iter l (car_version params) (app_id m) (car_name params) u token
         (unwrap_or (car_config params) []) (car_python_packages params) n0 = (Ok h, n2)"
    and n': "n' = spawn_watcher st (app_id m) h n2"
    using app_store.create_app_OkD [OF assms(1) refl assms(3) uuid] by (auto simp: assms(2) spark_launcher_def)
  have tok: "info_token info = token" "info_id info = app_id m" using application_info_Ok [OF info] row(2) by simp_all
  from launch_OkD [OF l] obtain version venv n1 args child env where
    v: "select_version l (car_version params) = Ok version"
    and ve: "launch_venv os ops version (car_python_packages params) n0 = (Ok venv, n1)"
    and b: "build_submit_command iter l version (app_id m) (car_name params) u token
        (unwrap_or (car_config params) []) venv
        = Ok (path_join (path_join (sv_home version) ''bin'') ''spark-submit'', args)"
    and sp: "spawn ops (path_join (path_join (sv_home version) ''bin'') ''spark-submit'') args env n1 = (Ok child, n2)"
    and h: "hm_get env ''SPARK_HOME'' = Some (sv_home version)" "h = (child, sl_launch_timeout l)"
    by blast
  have ver: "version \<in> set (versions l) \<and>
     (case car_version params of None \<Rightarrow> version = hd (versions l) | Some v \<Rightarrow> sv_name version = v)"
    using v by (auto simp: select_version_def find_Some_iff split: option.splits list.splits)
  with assms(5) have "version_wf version" "version_plain version" by (auto simp: list_all_iff)
  then have "hm_get (submit_confs args []) k = Some x" if "(k, x) \<in> set (internal_configs l token)" for k x
    using submit_confs_eq [OF b assms(4) _ _ assms(6), of k] hm_get_internal [OF that] by simp
  then have "hm_get (submit_confs args []) TOKEN_CONFIG = Some token"
    "hm_get (submit_confs args []) CALLBACK_CONFIG = Some (callback_addr l)"
    by (simp_all add: internal_configs_def)
  with uuid ver ve sp n' [unfolded h(2)] h(1) row show ?thesis unfolding tok by blast
qed

text \<open>A server whose world is the list of the commands it has run.\<close>

definition demo_spark_st :: "(mem, (string \<times> string list) list) AppStateDyn" where
  "demo_spark_st = \<lparr>state_db = mem_db, state_launcher = spark_launcher demo_host demo_procs (\<lambda>m. m) demo_launcher,
     state_config = ProxyConfig_default, new_v4 = (\<lambda>n. (''t2'', n)), render_template = (\<lambda>t a. Some (t @ a)),
     state_http = \<lparr>client_build = Ok (), http_post = (\<lambda>url hs n. (Ok 200, n)), error_for_status = (\<lambda>code. Ok ())\<rparr>,
     spawn_watcher = (\<lambda>i h n. n)\<rparr>"

theorem create_starts_session_with_token_witness:
  "\<exists>info d args. create_app demo_spark_st ''bob'' \<lparr>car_name = None, car_version = None, car_config = None,
          car_python_packages = None\<rparr> (demo_mem, [], []) = (Ok info, d, [], [(''/opt/spark/bin/spark-submit'', args)]) \<and>
     info_token info = ''t2'' \<and> hm_get (submit_confs args []) TOKEN_CONFIG = Some ''t2'' \<and>
     hm_get (submit_confs args []) CALLBACK_CONFIG = Some ''http://localhost:8100''"
proof -
  let ?p = "\<lparr>car_name = None, car_version = None, car_config = None, car_python_packages = None\<rparr>"
  have v: "validate_file_configs [] = Ok ()" by code_simp
  have l: "\<exists>h n'. launch demo_host demo_procs (\<lambda>m. m) demo_launcher None i None u t [] None n = (Ok h, n')"
    for i u t n
    by (simp add: launch_def select_version_def launch_venv_def demo_launcher_def demo_procs_def
        build_submit_command_def v Let_def)
  have ins: "db_insert mem_db as demo_mem = mem_insert as demo_mem" for as
    by (simp add: mem_db_def with_fault_def demo_mem_def)
  have sts: "state_db demo_spark_st = mem_db" "new_v4 demo_spark_st n = (''t2'', n)" "spawn_watcher demo_spark_st i h n = n"
    "state_launcher demo_spark_st = spark_launcher demo_host demo_procs (\<lambda>m. m) demo_launcher"
    for n i and h :: JoinHandle by (simp_all add: demo_spark_st_def)
  obtain m d1 where m: "mem_insert (new_application ''bob'' None ''t2'') demo_mem = (Ok m, d1)" "application_id m = None"
    by (simp add: mem_insert_def Let_def new_row)
  obtain h n' where h: "launch demo_host demo_procs (\<lambda>m. m) demo_launcher None (app_id m) None ''bob'' ''t2'' [] None []
      = (Ok h, n')" using l by blast
  obtain info d n where run: "create_app demo_spark_st ''bob'' ?p (demo_mem, [], []) = (Ok info, d, [], n)"
    using h m application_info_launching [OF m(2), of demo_spark_st]
    by (simp add: create_app_def sts ins spark_launcher_def Let_def)
  have hyps: "visits_once (\<lambda>m. m)" "list_all (\<lambda>v. version_wf v \<and> version_plain v) (versions demo_launcher)"
    "plain_keys (unwrap_or (car_config ?p) [])"
    by (simp_all add: visits_once_def demo_launcher_def version_wf_def version_plain_def plain_keys_def
        hm_wf_def demo_version_def SparkVersion_default_def)
  have bin: "path_join (path_join (sv_home demo_version) ''bin'') ''spark-submit'' = ''/opt/spark/bin/spark-submit''"
    by (simp add: path_join_def starts_with_def demo_version_def)
  have world: "versions demo_launcher = [demo_version]"
    "launch_venv demo_host demo_procs v None w = (Ok None, w)"
    "spawn demo_procs cmd as env w = (Ok (length w), w @ [(cmd, as)])" "callback_addr demo_launcher = ''http://localhost:8100''"
    for v cmd as env w by (simp_all add: demo_launcher_def launch_venv_def demo_procs_def)
  from create_starts_session_with_token [of demo_spark_st table, unfolded sts(1), OF mem.app_store_axioms sts(4) run hyps]
  show ?thesis using run world bin by (auto simp: sts)
qed

text \<open>A Spark Connect request without a usable bearer token never reaches the database, the
  cache, the network or the HTTP API: it is answered at once with a gRPC error of status 16
  (unauthenticated).\<close>

lemma proxy_rejects_unauthenticated:
  assumes "starts_with (req_path req) ''/spark.connect.SparkConnectService''"
    and "extract_bearer_token (req_headers req) = Err e"
  shows "ProxyService_call from_str router db ch yield req s = (proxy_error_response from_str e, s) \<and>
     grpc_status e = ''16''"
proof
  show "ProxyService_call from_str router db ch yield req s = (proxy_error_response from_str e, s)"
    using assms by (cases s) (simp add: ProxyService_call_def dispatch_request_def)
  show "grpc_status e = ''16''"
    using assms(2) by (auto simp: extract_bearer_token_def split: option.splits Result.splits if_splits)
qed

end
